theory Spec2Isabelle
  imports Complex_Main "HOL-Library.Multiset" "HOL-Library.AList"
begin

section \<open>Strings\<close>

text \<open>
  JavaScript strings are modelled as \<open>string\<close> (lists of 8-bit characters). Text outside
  ASCII is carried as its UTF-8 bytes; the white space recognised by \<open>trim\<close> and by the
  regular-expression class \<open>\s\<close> is the ASCII part of the ECMAScript set (space, tab,
  line feed, vertical tab, form feed, carriage return).
\<close>

abbreviation dquote :: char where
  "dquote \<equiv> CHR 0x22"

definition is_space :: "char \<Rightarrow> bool" where
  "is_space c \<longleftrightarrow> c \<in> set [CHR '' '', CHR 0x09, CHR 0x0A, CHR 0x0B, CHR 0x0C, CHR 0x0D]"

definition trimStart :: "string \<Rightarrow> string" where
  "trimStart s = dropWhile is_space s"

definition trimEnd :: "string \<Rightarrow> string" where
  "trimEnd s = rev (dropWhile is_space (rev s))"

definition trim :: "string \<Rightarrow> string" where
  "trim s = trimEnd (trimStart s)"

section \<open>Line tokenizer (adcb.ts, \<open>parseCSVLine\<close>)\<close>

text \<open>
  The loop state is \<open>(result, current, inQuotes)\<close>. One step per character: a double quote
  flips \<open>inQuotes\<close> and is not appended; a comma outside quotes pushes the trimmed
  \<open>current\<close>; every other character is appended to \<open>current\<close>.
\<close>

type_synonym csv_state = "string list \<times> string \<times> bool"

fun csv_step :: "csv_state \<Rightarrow> char \<Rightarrow> csv_state" where
  "csv_step (result, current, inQuotes) ch =
     (if ch = dquote then (result, current, \<not> inQuotes)
      else if ch = CHR '','' \<and> \<not> inQuotes then (result @ [trim current], [], inQuotes)
      else (result, current @ [ch], inQuotes))"

definition parseCSVLine :: "string \<Rightarrow> string list" where
  "parseCSVLine line =
     (case foldl csv_step ([], [], False) line of
        (result, current, inQuotes) \<Rightarrow> result @ [trim current])"

section \<open>Properties of the line tokenizer\<close>

lemma dropWhile_rev_ends:
  assumes "\<not> P x"
  shows "\<exists>ys. dropWhile P (rev (x # xs)) = ys @ [x]"
proof (cases "\<forall>y \<in> set (rev xs). P y")
  case True
  have "dropWhile P (rev xs @ [x]) = dropWhile P [x]"
    by (rule dropWhile_append2) (use True in blast)
  then show ?thesis using assms by simp
next
  case False
  then obtain y where y: "y \<in> set (rev xs)" "\<not> P y" by blast
  have "dropWhile P (rev xs @ [x]) = dropWhile P (rev xs) @ [x]"
    using y by (rule dropWhile_append1)
  then show ?thesis by simp
qed

lemma dropWhile_rev_idem:
  "dropWhile P (rev (dropWhile P (rev (dropWhile P s)))) = rev (dropWhile P (rev (dropWhile P s)))"
proof (cases "dropWhile P s")
  case Nil
  show ?thesis unfolding Nil by simp
next
  case (Cons x xs)
  then have nP: "\<not> P x" using hd_dropWhile[of P s] by auto
  obtain ys where ys: "dropWhile P (rev (x # xs)) = ys @ [x]"
    using dropWhile_rev_ends[of P x xs] nP by blast
  show ?thesis unfolding Cons ys using nP by simp
qed

lemma trim_idem: "trim (trim s) = trim s"
  by (simp add: trim_def trimEnd_def trimStart_def dropWhile_rev_idem)

lemma set_trim: "set (trim s) \<subseteq> set s"
proof -
  have "set (dropWhile is_space (rev (dropWhile is_space s))) \<subseteq> set (rev (dropWhile is_space s))"
    by (rule set_dropWhileD[THEN subsetI])
  also have "\<dots> \<subseteq> set s" using set_dropWhileD by fastforce
  finally show ?thesis by (simp add: trim_def trimEnd_def trimStart_def)
qed

lemma csv_fold_prefix:
  "foldl csv_step (R @ r0, c, q) xs =
     (case foldl csv_step (r0, c, q) xs of (r, c', q') \<Rightarrow> (R @ r, c', q'))"
  by (induction xs arbitrary: r0 c q) auto

lemma csv_fold_inquotes:
  "snd (snd (foldl csv_step (r, c, q) xs)) = (q \<noteq> odd (count_list xs dquote))"
  by (induction xs arbitrary: r c q) auto

lemma csv_fold_quoted:
  "dquote \<notin> set xs \<Longrightarrow> foldl csv_step (r, c, True) xs = (r, c @ xs, True)"
  by (induction xs arbitrary: c) auto

lemma csv_fold_plain:
  "dquote \<notin> set xs \<Longrightarrow> CHR '','' \<notin> set xs \<Longrightarrow> foldl csv_step (r, c, q) xs = (r, c @ xs, q)"
  by (induction xs arbitrary: c) auto

definition csv_clean :: "csv_state \<Rightarrow> bool" where
  "csv_clean st \<longleftrightarrow>
     (\<forall>f \<in> set (fst st). trim f = f \<and> dquote \<notin> set f) \<and> dquote \<notin> set (fst (snd st))"

lemma csv_step_clean: "csv_clean st \<Longrightarrow> csv_clean (csv_step st x)"
proof -
  assume a: "csv_clean st"
  obtain r c q where st: "st = (r, c, q)" by (cases st) auto
  have "dquote \<notin> set (trim c)" using set_trim a st by (auto simp: csv_clean_def)
  then show ?thesis using a st by (auto simp: csv_clean_def trim_idem)
qed

lemma csv_fold_clean: "csv_clean st \<Longrightarrow> csv_clean (foldl csv_step st xs)"
  by (induction xs arbitrary: st) (simp_all add: csv_step_clean)

lemma parseCSVLine_fields_clean:
  "f \<in> set (parseCSVLine l) \<Longrightarrow> trim f = f \<and> dquote \<notin> set f"
proof -
  assume f: "f \<in> set (parseCSVLine l)"
  obtain r c q where st: "foldl csv_step ([], [], False) l = (r, c, q)"
    by (cases "foldl csv_step ([], [], False) l") auto
  have "csv_clean ([], [], False)" by (simp add: csv_clean_def)
  then have "csv_clean (r, c, q)" using csv_fold_clean st by metis
  then have inv: "(\<forall>f \<in> set r. trim f = f \<and> dquote \<notin> set f) \<and> dquote \<notin> set c"
    by (simp add: csv_clean_def)
  have "dquote \<notin> set (trim c)" using set_trim inv by blast
  then show ?thesis using f inv st by (auto simp: parseCSVLine_def trim_idem)
qed

lemma parseCSVLine_comma:
  assumes "even (count_list a dquote)"
  shows "parseCSVLine (a @ CHR '','' # b) = parseCSVLine a @ parseCSVLine b"
proof -
  obtain r c q where st: "foldl csv_step ([], [], False) a = (r, c, q)"
    by (cases "foldl csv_step ([], [], False) a") auto
  have q: "q = False" using csv_fold_inquotes[of "[]" "[]" False a] st assms by simp
  obtain r' c' q' where st': "foldl csv_step ([], [], False) b = (r', c', q')"
    by (cases "foldl csv_step ([], [], False) b") auto
  have "foldl csv_step ((r @ [trim c]) @ [], [], False) b = ((r @ [trim c]) @ r', c', q')"
    using csv_fold_prefix[of "r @ [trim c]" "[]" "[]" False b] st' by simp
  then show ?thesis using st st' q by (simp add: parseCSVLine_def)
qed

lemma parseCSVLine_quoted_span:
  assumes "dquote \<notin> set a" "CHR '','' \<notin> set a" "dquote \<notin> set s"
    and "dquote \<notin> set b" "CHR '','' \<notin> set b"
  shows "parseCSVLine (a @ dquote # s @ dquote # b) = [trim (a @ s @ b)]"
  using assms
  by (simp add: parseCSVLine_def csv_fold_plain csv_fold_quoted)

lemma parseCSVLine_doubled_quote:
  assumes "dquote \<notin> set s" "dquote \<notin> set t"
  shows "parseCSVLine (dquote # s @ dquote # dquote # t @ [dquote]) = [trim (s @ t)]"
  using assms
  by (simp add: parseCSVLine_def csv_fold_quoted)

lemma parseCSVLine_unterminated:
  assumes "even (count_list a dquote)" "dquote \<notin> set r"
  shows "parseCSVLine (a @ CHR '','' # dquote # r) = parseCSVLine a @ [trim r]"
proof -
  have "parseCSVLine (dquote # r) = [trim r]"
    using assms(2) by (simp add: parseCSVLine_def csv_fold_quoted)
  then show ?thesis using parseCSVLine_comma[OF assms(1), of "dquote # r"] by simp
qed

text \<open>
  C6 (as amended). For every line, every field is trimmed and contains no double-quote
  character: each quote only toggles the in-quotes state and is dropped, so a doubled quote
  inside a quoted span contributes no character and re-opens the span. A comma after an even
  number of quotes separates fields, a comma inside a quoted span does not, and an opening
  quote that is never closed merges the rest of the line, commas included, into the final
  field.
\<close>

theorem parseCSVLine_tokenizes:
  "(\<forall>f \<in> set (parseCSVLine l). trim f = f \<and> dquote \<notin> set f)
   \<and> (even (count_list a dquote) \<longrightarrow>
        parseCSVLine (a @ CHR '','' # b) = parseCSVLine a @ parseCSVLine b)
   \<and> (dquote \<notin> set s \<and> dquote \<notin> set t \<longrightarrow>
        parseCSVLine (dquote # s @ [dquote]) = [trim s]
        \<and> parseCSVLine (dquote # s @ dquote # dquote # t @ [dquote]) = [trim (s @ t)])
   \<and> (even (count_list a dquote) \<and> dquote \<notin> set s \<longrightarrow>
        parseCSVLine (a @ CHR '','' # dquote # s) = parseCSVLine a @ [trim s])"
proof -
  have "dquote \<notin> set s \<Longrightarrow> parseCSVLine (dquote # s @ [dquote]) = [trim s]"
    using parseCSVLine_quoted_span[of "[]" s "[]"] by simp
  then show ?thesis
    using parseCSVLine_fields_clean parseCSVLine_comma parseCSVLine_doubled_quote
      parseCSVLine_unterminated by blast
qed

theorem parseCSVLine_tokenizes_witness:
  "even (count_list ''x'' dquote) \<and> dquote \<notin> set ''p,q'' \<and> dquote \<notin> set ''r''
   \<and> parseCSVLine (''x'' @ CHR '','' # ''\"p,q\"'') = [''x'', ''p,q'']
   \<and> parseCSVLine (dquote # ''p,q'' @ dquote # dquote # ''r'' @ [dquote]) = [''p,qr'']
   \<and> parseCSVLine (''x'' @ CHR '','' # dquote # ''p,q'') = [''x'', ''p,q'']"
  using parseCSVLine_tokenizes[of "''x''" "''x''" "''\"p,q\"''" "''p,q''" "''r''"]
  by (simp add: parseCSVLine_def trim_def trimStart_def trimEnd_def is_space_def)

text \<open>
  C6 (as stated) fails on the doubled quote: in the quoted field \<open>"a""b"\<close> both quotes of
  the pair are dropped, so the field is \<open>ab\<close> and holds no quote character.
\<close>

theorem parseCSVLine_doubled_quote_counterexample:
  "parseCSVLine ''\"a\"\"b\"'' = [''ab''] \<and> parseCSVLine ''\"a\"\"b\"'' \<noteq> [''a\"b'']"
  by (simp add: parseCSVLine_def trim_def trimStart_def trimEnd_def is_space_def)

section \<open>Layout reconstructor (enbd.ts, \<open>extractTextFromPDF\<close>)\<close>

text \<open>
  A page's text items carry \<open>str\<close> and the two translation entries of \<open>transform\<close>.
  Coordinates are exact rationals; \<open>Math.round\<close> rounds half up. Each merged line keeps
  its whole fragments (the source keeps \<open>x\<close> and \<open>text\<close> only), so that a fragment can be
  traced to its line. \<open>Array.prototype.sort\<close> is stable, as \<open>sort_key\<close> is.
\<close>

fun join :: "string \<Rightarrow> string list \<Rightarrow> string" where
  "join sep [] = []"
| "join sep [s] = s"
| "join sep (s # t # ts) = s @ sep @ join sep (t # ts)"

record TextItem =
  str :: string
  transform4 :: rat
  transform5 :: rat

record RawItem =
  item_x :: rat
  item_y :: int
  item_text :: string

record MergedLine =
  line_y :: int
  line_items :: "RawItem list"

definition Math_round :: "rat \<Rightarrow> int" where
  "Math_round r = \<lfloor>r + 1 / 2\<rfloor>"

definition rawItems :: "TextItem list \<Rightarrow> RawItem list" where
  "rawItems items =
     map (\<lambda>item. \<lparr>item_x = transform4 item, item_y = Math_round (transform5 item), item_text = str item\<rparr>)
       (filter (\<lambda>item. \<not> (str item = [] \<or> trim (str item) = [])) items)"

definition sortByYDesc :: "RawItem list \<Rightarrow> RawItem list" where
  "sortByYDesc items = sort_key (\<lambda>a. - item_y a) items"

definition Y_TOLERANCE :: int where
  "Y_TOLERANCE = 4"

fun mergeItem :: "MergedLine list \<Rightarrow> RawItem \<Rightarrow> MergedLine list" where
  "mergeItem [] item = [\<lparr>line_y = item_y item, line_items = [item]\<rparr>]"
| "mergeItem (l # ls) item =
     (if \<bar>line_y l - item_y item\<bar> \<le> Y_TOLERANCE
      then l\<lparr>line_items := line_items l @ [item]\<rparr> # ls
      else l # mergeItem ls item)"

definition mergedLines :: "RawItem list \<Rightarrow> MergedLine list" where
  "mergedLines items = foldl mergeItem [] (sortByYDesc items)"

definition lineText :: "MergedLine \<Rightarrow> string" where
  "lineText line = join '' '' (map item_text (sort_key item_x (line_items line)))"

definition pageText :: "RawItem list \<Rightarrow> string" where
  "pageText items =
     join ''\<newline>'' (map lineText (sort_key (\<lambda>l. - line_y l) (mergedLines items)))"


definition same_line :: "RawItem list \<Rightarrow> RawItem \<Rightarrow> RawItem \<Rightarrow> bool" where
  "same_line items a b \<longleftrightarrow>
     (\<exists>l \<in> set (mergedLines items). a \<in> set (line_items l) \<and> b \<in> set (line_items l))"

definition lines_ok :: "MergedLine list \<Rightarrow> bool" where
  "lines_ok ls \<longleftrightarrow>
     (\<forall>l \<in> set ls. \<forall>i \<in> set (line_items l).
        line_y l - Y_TOLERANCE \<le> item_y i \<and> item_y i \<le> line_y l)"

lemma mergeItem_ok:
  "lines_ok ls \<Longrightarrow> \<forall>l \<in> set ls. item_y x \<le> line_y l \<Longrightarrow> lines_ok (mergeItem ls x)"
proof (induction ls)
  case Nil
  then show ?case by (simp add: lines_ok_def Y_TOLERANCE_def)
next
  case (Cons l ls)
  have tl: "lines_ok ls" using Cons.prems(1) by (simp add: lines_ok_def)
  show ?case
  proof (cases "\<bar>line_y l - item_y x\<bar> \<le> Y_TOLERANCE")
    case True
    then show ?thesis using Cons.prems by (auto simp: lines_ok_def)
  next
    case False
    have "lines_ok (mergeItem ls x)" using Cons.IH tl Cons.prems(2) by simp
    then show ?thesis using False Cons.prems(1) by (simp add: lines_ok_def)
  qed
qed

lemma mergeItem_line_y:
  "l \<in> set (mergeItem ls x) \<Longrightarrow> line_y l = item_y x \<or> line_y l \<in> line_y ` set ls"
  by (induction ls) (auto split: if_splits)

lemma fold_mergeItem_ok:
  "lines_ok ls \<Longrightarrow> sorted (map (\<lambda>a. - item_y a) xs) \<Longrightarrow>
   \<forall>l \<in> set ls. \<forall>x \<in> set xs. item_y x \<le> line_y l \<Longrightarrow>
   lines_ok (foldl mergeItem ls xs)"
proof (induction xs arbitrary: ls)
  case Nil
  then show ?case by simp
next
  case (Cons x xs)
  have a: "lines_ok (mergeItem ls x)" using mergeItem_ok Cons.prems(1,3) by simp
  have b: "sorted (map (\<lambda>a. - item_y a) xs)" using Cons.prems(2) by simp
  have le: "\<forall>z \<in> set xs. item_y z \<le> item_y x" using Cons.prems(2) by auto
  have c: "\<forall>l \<in> set (mergeItem ls x). \<forall>z \<in> set xs. item_y z \<le> line_y l"
  proof (intro ballI)
    fix l z assume l: "l \<in> set (mergeItem ls x)" and z: "z \<in> set xs"
    from mergeItem_line_y[OF l] show "item_y z \<le> line_y l"
    proof
      assume "line_y l = item_y x" then show ?thesis using le z by simp
    next
      assume "line_y l \<in> line_y ` set ls"
      then show ?thesis using Cons.prems(3) z by auto
    qed
  qed
  show ?case using Cons.IH[OF a b c] by simp
qed

lemma mergedLines_ok: "lines_ok (mergedLines items)"
  unfolding mergedLines_def sortByYDesc_def
  by (rule fold_mergeItem_ok) (simp_all add: lines_ok_def)

lemma same_line_close:
  "same_line items a b \<Longrightarrow> \<bar>item_y a - item_y b\<bar> \<le> Y_TOLERANCE"
proof -
  assume "same_line items a b"
  then obtain l where l: "l \<in> set (mergedLines items)" "a \<in> set (line_items l)" "b \<in> set (line_items l)"
    by (auto simp: same_line_def)
  have "line_y l - Y_TOLERANCE \<le> item_y a \<and> item_y a \<le> line_y l"
    "line_y l - Y_TOLERANCE \<le> item_y b \<and> item_y b \<le> line_y l"
    using mergedLines_ok[of items] l by (auto simp: lines_ok_def)
  then show ?thesis by linarith
qed

lemma same_line_pair:
  "same_line [a, b] a b \<longleftrightarrow> \<bar>item_y a - item_y b\<bar> \<le> Y_TOLERANCE"
  by (auto simp: same_line_def mergedLines_def sortByYDesc_def Y_TOLERANCE_def)


definition line_index :: "int list \<Rightarrow> int \<Rightarrow> nat" where
  "line_index rs v = length (takeWhile (\<lambda>r. \<not> \<bar>r - v\<bar> \<le> Y_TOLERANCE) rs)"

lemma line_index_Nil [simp]: "line_index [] v = 0"
  by (simp add: line_index_def)

lemma line_index_Cons [simp]:
  "line_index (r # rs) v = (if \<bar>r - v\<bar> \<le> Y_TOLERANCE then 0 else Suc (line_index rs v))"
  by (simp add: line_index_def)

lemma line_index_le: "line_index rs v \<le> length rs"
  by (simp add: line_index_def length_takeWhile_le)

lemma line_index_append:
  "line_index (rs @ es) v = (if line_index rs v < length rs then line_index rs v
                             else length rs + line_index es v)"
  by (induction rs) auto

lemma mergeItem_length:
  "length (mergeItem ls x) =
     (if line_index (map line_y ls) (item_y x) < length ls then length ls else Suc (length ls))"
  by (induction ls) auto

lemma mergeItem_nth:
  "k < length (mergeItem ls x) \<Longrightarrow>
   mergeItem ls x ! k =
     (if k < length ls
      then (if k = line_index (map line_y ls) (item_y x)
            then (ls ! k)\<lparr>line_items := line_items (ls ! k) @ [x]\<rparr> else ls ! k)
      else \<lparr>line_y = item_y x, line_items = [x]\<rparr>)"
proof (induction ls arbitrary: k)
  case Nil
  then show ?case by simp
next
  case (Cons l ls)
  show ?case
  proof (cases "\<bar>line_y l - item_y x\<bar> \<le> Y_TOLERANCE")
    case True
    then show ?thesis using Cons.prems by (cases k) auto
  next
    case False
    show ?thesis
    proof (cases k)
      case 0
      then show ?thesis using False by simp
    next
      case (Suc k')
      then have "k' < length (mergeItem ls x)" using Cons.prems False by simp
      from Cons.IH[OF this] show ?thesis using False Suc by simp
    qed
  qed
qed

lemma mergeItem_line_ys:
  "map line_y (mergeItem ls x) =
     (if line_index (map line_y ls) (item_y x) < length ls then map line_y ls
      else map line_y ls @ [item_y x])"
  by (induction ls) auto

definition placed :: "MergedLine list \<Rightarrow> RawItem list \<Rightarrow> bool" where
  "placed F xs \<longleftrightarrow>
     (\<forall>k < length F. line_items (F ! k) = filter (\<lambda>f. line_index (map line_y F) (item_y f) = k) xs)
     \<and> (\<forall>f \<in> set xs. line_index (map line_y F) (item_y f) < length F)"

lemma placed_step:
  assumes "placed F xs"
  shows "placed (mergeItem F x) (xs @ [x])"
proof -
  let ?R = "map line_y F"
  let ?j = "line_index ?R (item_y x)"
  let ?F' = "mergeItem F x"
  let ?R' = "map line_y ?F'"
  have jle: "?j \<le> length F" using line_index_le[of ?R "item_y x"] by simp
  have R': "?R' = (if ?j < length F then ?R else ?R @ [item_y x])"
    by (rule mergeItem_line_ys)
  have old: "line_index ?R' (item_y f) = line_index ?R (item_y f)" if "f \<in> set xs" for f
  proof -
    have "line_index ?R (item_y f) < length ?R" using assms that by (simp add: placed_def)
    then show ?thesis using R' by (simp add: line_index_append)
  qed
  have new: "line_index ?R' (item_y x) = ?j"
  proof (cases "?j < length F")
    case True
    then show ?thesis using R' by simp
  next
    case False
    then have "?j = length F" using jle by simp
    then show ?thesis using R' False by (simp add: line_index_append Y_TOLERANCE_def)
  qed
  have len: "length ?F' = (if ?j < length F then length F else Suc (length F))"
    by (rule mergeItem_length)
  have filt: "filter (\<lambda>f. line_index ?R' (item_y f) = k) xs
              = filter (\<lambda>f. line_index ?R (item_y f) = k) xs" for k
    by (rule filter_cong) (simp_all add: old)
  have part1: "line_items (?F' ! k) = filter (\<lambda>f. line_index ?R' (item_y f) = k) (xs @ [x])"
    if k: "k < length ?F'" for k
  proof (cases "k < length F")
    case True
    have it: "line_items (F ! k) = filter (\<lambda>f. line_index ?R (item_y f) = k) xs"
      using assms True by (simp add: placed_def)
    show ?thesis using mergeItem_nth[OF k] True it filt[of k] new by auto
  next
    case False
    then have kk: "k = length F" "\<not> ?j < length F" using k len by (auto split: if_splits)
    then have jj: "?j = length F" using jle by simp
    have "filter (\<lambda>f. line_index ?R (item_y f) = k) xs = []"
      using assms kk by (auto simp: placed_def filter_empty_conv)
    then show ?thesis using mergeItem_nth[OF k] False filt[of k] new jj kk by simp
  qed
  have part2: "line_index ?R' (item_y f) < length ?F'" if "f \<in> set (xs @ [x])" for f
  proof (cases "f \<in> set xs")
    case True
    then have "line_index ?R (item_y f) < length F" using assms by (simp add: placed_def)
    then show ?thesis using old[OF True] len by (simp split: if_splits)
  next
    case False
    then have "f = x" using that by simp
    then show ?thesis using new len jle by (simp split: if_splits)
  qed
  show ?thesis unfolding placed_def using part1 part2 by blast
qed

lemma placed_foldl: "placed (foldl mergeItem [] xs) xs"
proof (induction xs rule: rev_induct)
  case Nil
  then show ?case by (simp add: placed_def)
next
  case (snoc x xs)
  then show ?case using placed_step by simp
qed

definition reps_step :: "int list \<Rightarrow> int \<Rightarrow> int list" where
  "reps_step rs v = (if line_index rs v < length rs then rs else rs @ [v])"

lemma line_ys_foldl:
  "map line_y (foldl mergeItem ls xs) = foldl reps_step (map line_y ls) (map item_y xs)"
  by (induction xs arbitrary: ls) (simp_all add: mergeItem_line_ys reps_step_def)

lemma sorted_by_filters_unique:
  fixes f :: "'a \<Rightarrow> 'b::linorder"
  assumes "sorted (map f u)" "sorted (map f v)"
    and "\<And>k. filter (\<lambda>a. f a = k) u = filter (\<lambda>a. f a = k) v"
  shows "u = v"
  using assms
proof (induction u arbitrary: v)
  case Nil
  show ?case
  proof (cases v)
    case Nil then show ?thesis by simp
  next
    case (Cons b v')
    have "filter (\<lambda>a. f a = f b) [] = filter (\<lambda>a. f a = f b) v" using Nil.prems(3) by blast
    then show ?thesis using Cons by simp
  qed
next
  case (Cons a u')
  have fa: "filter (\<lambda>c. f c = f a) (a # u') = filter (\<lambda>c. f c = f a) v" using Cons.prems(3) by blast
  have "a \<in> set (filter (\<lambda>c. f c = f a) (a # u'))" by simp
  then have av: "a \<in> set v" unfolding fa by simp
  then obtain b v' where v: "v = b # v'" by (cases v) auto
  have fb: "filter (\<lambda>c. f c = f b) (a # u') = filter (\<lambda>c. f c = f b) v" using Cons.prems(3) by blast
  have "b \<in> set (filter (\<lambda>c. f c = f b) (a # u'))" unfolding fb v by simp
  then have bu: "b \<in> set (a # u')" using filter_is_subset[of "\<lambda>c. f c = f b" "a # u'"] by blast
  have "f a \<le> f b" using Cons.prems(1) bu by auto
  moreover have "f b \<le> f a" using Cons.prems(2) av v by auto
  ultimately have eq: "f a = f b" by simp
  have ab: "a = b" using fa v eq by simp
  have tl: "filter (\<lambda>c. f c = k) u' = filter (\<lambda>c. f c = k) v'" for k
  proof -
    have "filter (\<lambda>c. f c = k) (a # u') = filter (\<lambda>c. f c = k) (a # v')"
      using Cons.prems(3)[of k] unfolding v ab by simp
    then show ?thesis by (cases "f a = k") simp_all
  qed
  have "u' = v'" using Cons.IH[of v'] Cons.prems(1,2) v tl by simp
  then show ?case using v ab by simp
qed

lemma sorted_inj_unique:
  fixes g :: "'a \<Rightarrow> 'b::linorder"
  assumes "sorted (map g u)" "sorted (map g v)" "mset u = mset v" "inj_on g (set u)"
  shows "u = v"
proof -
  have m: "mset (map g u) = mset (map g v)" using assms(3) by (metis mset_map)
  have "sort (map g v) = map g u" using m assms(1) by (metis properties_for_sort)
  moreover have "sort (map g v) = map g v" using assms(2) by (metis properties_for_sort)
  ultimately have "map g u = map g v" by simp
  moreover have "set v = set u" using assms(3) by (metis mset_eq_setD)
  ultimately show ?thesis using assms(4) by (simp add: inj_on_map_eq_map)
qed

lemma insort_key_rel:
  assumes "list_all2 R as bs" "R a b" "\<And>p q. R p q \<Longrightarrow> f p = g q"
  shows "list_all2 R (insort_key f a as) (insort_key g b bs)"
  using assms(1)
proof (induction rule: list_all2_induct)
  case Nil
  then show ?case using assms(2) by simp
next
  case (Cons p ps q qs)
  have "f p = g q" "f a = g b" using assms(3) Cons(1) assms(2) by auto
  then show ?case using Cons assms(2) by auto
qed

lemma sort_key_rel:
  assumes "list_all2 R as bs" "\<And>p q. R p q \<Longrightarrow> f p = g q"
  shows "list_all2 R (sort_key f as) (sort_key g bs)"
  using assms(1)
proof (induction rule: list_all2_induct)
  case Nil
  then show ?case by simp
next
  case (Cons p ps q qs)
  then show ?case using insort_key_rel[of R _ _ p q f g] assms(2) by simp
qed

definition position_distinct :: "RawItem list \<Rightarrow> bool" where
  "position_distinct items \<longleftrightarrow>
     (\<forall>a \<in> set items. \<forall>b \<in> set items.
        item_x a = item_x b \<and> item_y a = item_y b \<longrightarrow> item_text a = item_text b)"

lemma sortByYDesc_ys:
  assumes "mset xs = mset ys"
  shows "map item_y (sortByYDesc xs) = map item_y (sortByYDesc ys)"
proof -
  let ?f = "\<lambda>a. - item_y a"
  have a: "sort (map ?f xs) = map ?f (sort_key ?f xs)"
    by (rule properties_for_sort) simp_all
  have b: "sort (map ?f ys) = map ?f (sort_key ?f ys)"
    by (rule properties_for_sort) simp_all
  have "sort (map ?f xs) = sort (map ?f ys)"
    by (rule properties_for_sort) (simp_all add: assms)
  then have "map ?f (sort_key ?f xs) = map ?f (sort_key ?f ys)" unfolding a b .
  then have "map uminus (map ?f (sort_key ?f xs)) = map uminus (map ?f (sort_key ?f ys))"
    by (rule arg_cong)
  then show ?thesis by (simp add: sortByYDesc_def comp_def)
qed

lemma filter_sorted_unique:
  assumes "mset s = mset t"
    and "sorted (map (\<lambda>a. - item_y a) s)" "sorted (map (\<lambda>a. - item_y a) t)"
    and "position_distinct s"
    and "\<And>a. Q a \<Longrightarrow> item_x a = c"
  shows "filter Q s = filter Q t"
proof (rule sorted_inj_unique[where g = "\<lambda>a. - item_y a"])
  show "sorted (map (\<lambda>a. - item_y a) (filter Q s))" using assms(2) by (rule sorted_filter)
  show "sorted (map (\<lambda>a. - item_y a) (filter Q t))" using assms(3) by (rule sorted_filter)
  show "mset (filter Q s) = mset (filter Q t)" using assms(1) by simp
  show "inj_on (\<lambda>a. - item_y a) (set (filter Q s))"
  proof (rule inj_onI)
    fix a b assume a: "a \<in> set (filter Q s)" and b: "b \<in> set (filter Q s)"
      and e: "- item_y a = - item_y b"
    have "item_x a = item_x b" using a b assms(5) by simp
    moreover have "item_y a = item_y b" using e by simp
    ultimately have "item_text a = item_text b"
      using assms(4) a b by (simp add: position_distinct_def)
    then show "a = b" using \<open>item_x a = item_x b\<close> \<open>item_y a = item_y b\<close> by simp
  qed
qed

lemma sort_x_filter_unique:
  assumes "mset s = mset t"
    and "sorted (map (\<lambda>a. - item_y a) s)" "sorted (map (\<lambda>a. - item_y a) t)"
    and "position_distinct s"
  shows "sort_key item_x (filter P s) = sort_key item_x (filter P t)"
proof (rule sorted_by_filters_unique[where f = item_x])
  show "sorted (map item_x (sort_key item_x (filter P s)))" by simp
  show "sorted (map item_x (sort_key item_x (filter P t)))" by simp
  fix k
  have "filter (\<lambda>a. item_x a = k \<and> P a) s = filter (\<lambda>a. item_x a = k \<and> P a) t"
    using assms by (rule filter_sorted_unique) simp
  then show "filter (\<lambda>a. item_x a = k) (sort_key item_x (filter P s))
           = filter (\<lambda>a. item_x a = k) (sort_key item_x (filter P t))"
    by (simp add: sort_key_stable conj_commute)
qed

lemma pageText_permutation:
  assumes "mset xs = mset ys" "position_distinct xs"
  shows "pageText xs = pageText ys"
proof -
  let ?s = "sortByYDesc xs" and ?t = "sortByYDesc ys"
  let ?F = "foldl mergeItem [] ?s" and ?G = "foldl mergeItem [] ?t"
  have ms: "mset ?s = mset ?t" using assms(1) by (simp add: sortByYDesc_def)
  have ss: "sorted (map (\<lambda>a. - item_y a) ?s)" "sorted (map (\<lambda>a. - item_y a) ?t)"
    by (simp_all add: sortByYDesc_def)
  have pd: "position_distinct ?s"
    using assms(2) unfolding position_distinct_def sortByYDesc_def set_sort .
  have R: "map line_y ?F = map line_y ?G"
    using sortByYDesc_ys[OF assms(1)] by (simp add: line_ys_foldl)
  then have len: "length ?F = length ?G" by (metis length_map)
  have pF: "placed ?F ?s" and pG: "placed ?G ?t" by (rule placed_foldl)+
  have "list_all2 (\<lambda>l m. line_y l = line_y m \<and> lineText l = lineText m) ?F ?G"
  proof (rule list_all2_all_nthI[OF len])
    fix k assume k: "k < length ?F"
    have y: "line_y (?F ! k) = line_y (?G ! k)" using R k len by (metis nth_map)
    have iF: "line_items (?F ! k) = filter (\<lambda>f. line_index (map line_y ?F) (item_y f) = k) ?s"
      using pF k by (simp add: placed_def)
    have iG: "line_items (?G ! k) = filter (\<lambda>f. line_index (map line_y ?F) (item_y f) = k) ?t"
      using pG k len R by (simp add: placed_def)
    have "sort_key item_x (line_items (?F ! k)) = sort_key item_x (line_items (?G ! k))"
      unfolding iF iG using ms ss pd by (rule sort_x_filter_unique)
    then show "line_y (?F ! k) = line_y (?G ! k) \<and> lineText (?F ! k) = lineText (?G ! k)"
      using y by (simp add: lineText_def)
  qed
  then have "list_all2 (\<lambda>l m. line_y l = line_y m \<and> lineText l = lineText m)
               (sort_key (\<lambda>l. - line_y l) ?F) (sort_key (\<lambda>l. - line_y l) ?G)"
    by (rule sort_key_rel) simp
  then have "map lineText (sort_key (\<lambda>l. - line_y l) ?F) = map lineText (sort_key (\<lambda>l. - line_y l) ?G)"
    by (simp add: list_all2_conv_all_nth list_eq_iff_nth_eq)
  then show ?thesis by (simp add: pageText_def mergedLines_def)
qed

text \<open>
  C4 (as amended). Two fragments placed into the same logical line have rounded vertical
  coordinates at most 4 units apart, and when a page holds just two fragments they share a
  line if and only if their coordinates are at most 4 apart (so 100 and 103 merge, 100 and
  106 do not). On a page with more fragments the converse fails: a fragment joins the first
  line whose top fragment is within 4 units, not the line of every fragment within 4 units.
\<close>

theorem same_line_tolerance:
  "(same_line items a b \<longrightarrow> \<bar>item_y a - item_y b\<bar> \<le> 4)
   \<and> (same_line [c, d] c d \<longleftrightarrow> \<bar>item_y c - item_y d\<bar> \<le> 4)"
  using same_line_close[of items a b] same_line_pair[of c d]
  by (simp add: Y_TOLERANCE_def)

theorem same_line_tolerance_witness:
  "same_line [\<lparr>item_x = 0, item_y = 100, item_text = ''a''\<rparr>,
              \<lparr>item_x = 9, item_y = 103, item_text = ''b''\<rparr>]
     \<lparr>item_x = 0, item_y = 100, item_text = ''a''\<rparr>
     \<lparr>item_x = 9, item_y = 103, item_text = ''b''\<rparr>
   \<and> \<not> same_line [\<lparr>item_x = 0, item_y = 100, item_text = ''a''\<rparr>,
                  \<lparr>item_x = 9, item_y = 106, item_text = ''c''\<rparr>]
     \<lparr>item_x = 0, item_y = 100, item_text = ''a''\<rparr>
     \<lparr>item_x = 9, item_y = 106, item_text = ''c''\<rparr>"
  using same_line_tolerance[of
      "[\<lparr>item_x = 0, item_y = 100, item_text = ''a''\<rparr>,
        \<lparr>item_x = 9, item_y = 103, item_text = ''b''\<rparr>]"
      "\<lparr>item_x = 0, item_y = 100, item_text = ''a''\<rparr>"
      "\<lparr>item_x = 9, item_y = 103, item_text = ''b''\<rparr>"
      "\<lparr>item_x = 0, item_y = 100, item_text = ''a''\<rparr>"
      "\<lparr>item_x = 9, item_y = 106, item_text = ''c''\<rparr>"]
  by (simp add: same_line_def mergedLines_def sortByYDesc_def Y_TOLERANCE_def)

text \<open>
  C4 (as stated) fails: with fragments at 100, 97 and 94 the one at 97 joins the line of 100,
  the one at 94 is 6 units from that line's top and starts a new line, although 97 and 94
  are only 3 units apart.
\<close>

theorem same_line_iff_counterexample:
  "\<not> same_line [\<lparr>item_x = 0, item_y = 100, item_text = ''a''\<rparr>,
                \<lparr>item_x = 10, item_y = 97, item_text = ''b''\<rparr>,
                \<lparr>item_x = 20, item_y = 94, item_text = ''c''\<rparr>]
       \<lparr>item_x = 10, item_y = 97, item_text = ''b''\<rparr>
       \<lparr>item_x = 20, item_y = 94, item_text = ''c''\<rparr>
   \<and> \<bar>item_y \<lparr>item_x = 10, item_y = 97, item_text = ''b''\<rparr>
        - item_y \<lparr>item_x = 20, item_y = 94, item_text = ''c''\<rparr>\<bar> \<le> 4"
  by (simp add: same_line_def mergedLines_def sortByYDesc_def Y_TOLERANCE_def)

text \<open>
  C5 (as amended). Two orderings of the same collection of fragments give the same page
  text, provided fragments that share both coordinates carry the same text. (Fragments are
  ordered by the rounded vertical coordinate, then by the horizontal one, each time by a
  stable sort, so two fragments at one position keep their input order.)
\<close>

theorem pageText_order_stable:
  "mset xs = mset ys \<Longrightarrow> position_distinct xs \<Longrightarrow> pageText xs = pageText ys"
  by (rule pageText_permutation)

theorem pageText_order_stable_witness:
  "mset [\<lparr>item_x = 10, item_y = 100, item_text = ''A''\<rparr>,
         \<lparr>item_x = 5, item_y = 97, item_text = ''B''\<rparr>]
     = mset [\<lparr>item_x = 5, item_y = 97, item_text = ''B''\<rparr>,
             \<lparr>item_x = 10, item_y = 100, item_text = ''A''\<rparr>]
   \<and> position_distinct [\<lparr>item_x = 10, item_y = 100, item_text = ''A''\<rparr>,
                         \<lparr>item_x = 5, item_y = 97, item_text = ''B''\<rparr>]
   \<and> pageText [\<lparr>item_x = 10, item_y = 100, item_text = ''A''\<rparr>,
                \<lparr>item_x = 5, item_y = 97, item_text = ''B''\<rparr>]
     = pageText [\<lparr>item_x = 5, item_y = 97, item_text = ''B''\<rparr>,
                 \<lparr>item_x = 10, item_y = 100, item_text = ''A''\<rparr>]"
  using pageText_order_stable[of
      "[\<lparr>item_x = 10, item_y = 100, item_text = ''A''\<rparr>,
        \<lparr>item_x = 5, item_y = 97, item_text = ''B''\<rparr>]"
      "[\<lparr>item_x = 5, item_y = 97, item_text = ''B''\<rparr>,
        \<lparr>item_x = 10, item_y = 100, item_text = ''A''\<rparr>]"]
  by (simp add: position_distinct_def)

text \<open>
  C5 (as stated) fails: two fragments at the same position with different text come out in
  their input order.
\<close>

theorem pageText_order_counterexample:
  "mset [\<lparr>item_x = 10, item_y = 100, item_text = ''A''\<rparr>,
         \<lparr>item_x = 10, item_y = 100, item_text = ''B''\<rparr>]
     = mset [\<lparr>item_x = 10, item_y = 100, item_text = ''B''\<rparr>,
             \<lparr>item_x = 10, item_y = 100, item_text = ''A''\<rparr>]
   \<and> pageText [\<lparr>item_x = 10, item_y = 100, item_text = ''A''\<rparr>,
                \<lparr>item_x = 10, item_y = 100, item_text = ''B''\<rparr>] = ''A B''
   \<and> pageText [\<lparr>item_x = 10, item_y = 100, item_text = ''B''\<rparr>,
                \<lparr>item_x = 10, item_y = 100, item_text = ''A''\<rparr>] = ''B A''"
  by (simp add: pageText_def mergedLines_def sortByYDesc_def lineText_def Y_TOLERANCE_def)

section \<open>More string operations\<close>

definition is_digit :: "char \<Rightarrow> bool" where
  "is_digit c \<longleftrightarrow> c \<in> set ''0123456789''"

definition is_word :: "char \<Rightarrow> bool" where
  "is_word c \<longleftrightarrow>
     c \<in> set ''abcdefghijklmnopqrstuvwxyzABCDEFGHIJKLMNOPQRSTUVWXYZ0123456789_''"

definition is_dot :: "char \<Rightarrow> bool" where
  "is_dot c \<longleftrightarrow> c \<noteq> CHR 0x0A \<and> c \<noteq> CHR 0x0D"

definition toLowerChar :: "char \<Rightarrow> char" where
  "toLowerChar c =
     (case map_of (zip ''ABCDEFGHIJKLMNOPQRSTUVWXYZ'' ''abcdefghijklmnopqrstuvwxyz'') c of
        Some l \<Rightarrow> l | None \<Rightarrow> c)"

definition toLowerCase :: "string \<Rightarrow> string" where
  "toLowerCase s = map toLowerChar s"

definition startsWith :: "string \<Rightarrow> string \<Rightarrow> bool" where
  "startsWith s p \<longleftrightarrow> take (length p) s = p"

definition endsWith :: "string \<Rightarrow> string \<Rightarrow> bool" where
  "endsWith s p \<longleftrightarrow> length p \<le> length s \<and> drop (length s - length p) s = p"

fun str_includes :: "string \<Rightarrow> string \<Rightarrow> bool" where
  "str_includes [] p \<longleftrightarrow> p = []"
| "str_includes (c # cs) p \<longleftrightarrow> startsWith (c # cs) p \<or> str_includes cs p"

fun split_acc :: "char \<Rightarrow> string \<Rightarrow> string \<Rightarrow> string list" where
  "split_acc sep cur [] = [cur]"
| "split_acc sep cur (c # cs) =
     (if c = sep then cur # split_acc sep [] cs else split_acc sep (cur @ [c]) cs)"

definition str_split :: "string \<Rightarrow> char \<Rightarrow> string list" where
  "str_split s sep = split_acc sep [] s"

definition padStart2 :: "string \<Rightarrow> string" where
  "padStart2 s = replicate (2 - length s) (CHR ''0'') @ s"

section \<open>Regular expressions\<close>

text \<open>
  The patterns of the source are values of \<open>rx\<close>. A matcher state is the text already
  read (reversed, so that its head is the previous character), the text still to read and
  the captures made so far. \<open>rx_match r st\<close> lists the states in which a match of \<open>r\<close>
  from \<open>st\<close> can end, in the order in which a backtracking matcher tries them: the greedy
  star lists longer runs first, the lazy star shorter runs first, and an iteration that
  reads nothing is dropped. \<open>rx_exec\<close> is \<open>String.prototype.match\<close> without the \<open>g\<close> flag: the
  first result at the leftmost position that has one.
\<close>

datatype rx =
    Eps
  | Ch "char \<Rightarrow> bool"
  | Seq rx rx
  | Alt rx rx
  | Star rx
  | LazyStar rx
  | Grp nat rx
  | Bol
  | Eol
  | WordB

type_synonym mstate = "string \<times> string \<times> (nat \<times> string) list"

fun star_greedy :: "(mstate \<Rightarrow> mstate list) \<Rightarrow> nat \<Rightarrow> mstate \<Rightarrow> mstate list" where
  "star_greedy f 0 st = [st]"
| "star_greedy f (Suc n) st =
     concat (map (star_greedy f n)
       (filter (\<lambda>t. length (fst (snd t)) < length (fst (snd st))) (f st))) @ [st]"

fun star_lazy :: "(mstate \<Rightarrow> mstate list) \<Rightarrow> nat \<Rightarrow> mstate \<Rightarrow> mstate list" where
  "star_lazy f 0 st = [st]"
| "star_lazy f (Suc n) st =
     st # concat (map (star_lazy f n)
       (filter (\<lambda>t. length (fst (snd t)) < length (fst (snd st))) (f st)))"

definition at_word_boundary :: "string \<Rightarrow> string \<Rightarrow> bool" where
  "at_word_boundary bef aft \<longleftrightarrow>
     (case bef of [] \<Rightarrow> False | c # _ \<Rightarrow> is_word c)
       \<noteq> (case aft of [] \<Rightarrow> False | c # _ \<Rightarrow> is_word c)"

primrec rx_match :: "rx \<Rightarrow> mstate \<Rightarrow> mstate list" where
  "rx_match Eps st = [st]"
| "rx_match (Ch P) st =
     (case st of (bef, aft, caps) \<Rightarrow>
        (case aft of [] \<Rightarrow> []
         | c # cs \<Rightarrow> if P c then [(c # bef, cs, caps)] else []))"
| "rx_match (Seq r1 r2) st = concat (map (rx_match r2) (rx_match r1 st))"
| "rx_match (Alt r1 r2) st = rx_match r1 st @ rx_match r2 st"
| "rx_match (Star r) st = star_greedy (rx_match r) (length (fst (snd st))) st"
| "rx_match (LazyStar r) st = star_lazy (rx_match r) (length (fst (snd st))) st"
| "rx_match (Grp n r) st =
     map (\<lambda>(bef', aft', caps').
            (bef', aft', (n, rev (take (length bef' - length (fst st)) bef')) # caps'))
       (rx_match r st)"
| "rx_match Bol st = (if fst st = [] then [st] else [])"
| "rx_match Eol st = (if fst (snd st) = [] then [st] else [])"
| "rx_match WordB st = (if at_word_boundary (fst st) (fst (snd st)) then [st] else [])"

primrec Seqs :: "rx list \<Rightarrow> rx" where
  "Seqs [] = Eps"
| "Seqs (r # rs) = Seq r (Seqs rs)"

primrec Lit :: "string \<Rightarrow> rx" where
  "Lit [] = Eps"
| "Lit (c # cs) = Seq (Ch (\<lambda>x. x = c)) (Lit cs)"

primrec LitI :: "string \<Rightarrow> rx" where
  "LitI [] = Eps"
| "LitI (c # cs) = Seq (Ch (\<lambda>x. toLowerChar x = toLowerChar c)) (LitI cs)"

primrec Alts :: "rx \<Rightarrow> rx list \<Rightarrow> rx" where
  "Alts r [] = r"
| "Alts r (r' # rs) = Alt r (Alts r' rs)"

definition Plus :: "rx \<Rightarrow> rx" where
  "Plus r = Seq r (Star r)"

definition LazyPlus :: "rx \<Rightarrow> rx" where
  "LazyPlus r = Seq r (LazyStar r)"

definition Opt :: "rx \<Rightarrow> rx" where
  "Opt r = Alt r Eps"

primrec Rep :: "nat \<Rightarrow> rx \<Rightarrow> rx" where
  "Rep 0 r = Eps"
| "Rep (Suc n) r = Seq r (Rep n r)"

record rx_result =
  m_index :: nat
  m_text :: string
  m_groups :: "(nat \<times> string) list"
  m_before :: string
  m_after :: string

definition mk_result :: "string \<Rightarrow> mstate \<Rightarrow> rx_result" where
  "mk_result bef st =
     (case st of (bef', aft', caps) \<Rightarrow>
        \<lparr>m_index = length bef, m_text = rev (take (length bef' - length bef) bef'),
         m_groups = caps, m_before = bef', m_after = aft'\<rparr>)"

fun rx_exec_from :: "rx \<Rightarrow> string \<Rightarrow> string \<Rightarrow> rx_result option" where
  "rx_exec_from r bef [] =
     (case rx_match r (bef, [], []) of [] \<Rightarrow> None | st # _ \<Rightarrow> Some (mk_result bef st))"
| "rx_exec_from r bef (c # cs) =
     (case rx_match r (bef, c # cs, []) of
        [] \<Rightarrow> rx_exec_from r (c # bef) cs
      | st # _ \<Rightarrow> Some (mk_result bef st))"

definition rx_exec :: "rx \<Rightarrow> string \<Rightarrow> rx_result option" where
  "rx_exec r s = rx_exec_from r [] s"

definition rx_test :: "rx \<Rightarrow> string \<Rightarrow> bool" where
  "rx_test r s \<longleftrightarrow> rx_exec r s \<noteq> None"

definition grp :: "rx_result \<Rightarrow> nat \<Rightarrow> string option" where
  "grp m n = map_of (m_groups m) n"

definition grp_str :: "rx_result \<Rightarrow> nat \<Rightarrow> string" where
  "grp_str m n = (case grp m n of Some s \<Rightarrow> s | None \<Rightarrow> [])"

definition rx_replace :: "rx \<Rightarrow> string \<Rightarrow> string \<Rightarrow> string" where
  "rx_replace r repl s =
     (case rx_exec r s of
        None \<Rightarrow> s
      | Some m \<Rightarrow> take (m_index m) s @ repl @ m_after m)"

fun rx_replace_all_from :: "rx \<Rightarrow> string \<Rightarrow> nat \<Rightarrow> string \<Rightarrow> string \<Rightarrow> string" where
  "rx_replace_all_from r repl k bef [] =
     (if k = 0 \<and> rx_match r (bef, [], []) \<noteq> [] then repl else [])"
| "rx_replace_all_from r repl k bef (c # cs) =
     (if 0 < k then rx_replace_all_from r repl (k - 1) (c # bef) cs
      else (case rx_match r (bef, c # cs, []) of
              [] \<Rightarrow> c # rx_replace_all_from r repl 0 (c # bef) cs
            | st # _ \<Rightarrow>
                let len = length (m_text (mk_result bef st)) in
                if len = 0 then repl @ c # rx_replace_all_from r repl 0 (c # bef) cs
                else repl @ rx_replace_all_from r repl (len - 1) (c # bef) cs))"

definition rx_replace_all :: "rx \<Rightarrow> string \<Rightarrow> string \<Rightarrow> string" where
  "rx_replace_all r repl s = rx_replace_all_from r repl 0 [] s"

abbreviation sp :: rx where
  "sp \<equiv> Ch is_space"

abbreviation dg :: rx where
  "dg \<equiv> Ch is_digit"

section \<open>Progress of the matcher\<close>

primrec rx_words :: "rx \<Rightarrow> string set" where
  "rx_words Eps = {[]}"
| "rx_words (Ch P) = {[c] | c. P c}"
| "rx_words (Seq r1 r2) = {u @ v | u v. u \<in> rx_words r1 \<and> v \<in> rx_words r2}"
| "rx_words (Alt r1 r2) = rx_words r1 \<union> rx_words r2"
| "rx_words (Star r) = {concat ws | ws. set ws \<subseteq> rx_words r}"
| "rx_words (LazyStar r) = {concat ws | ws. set ws \<subseteq> rx_words r}"
| "rx_words (Grp n r) = rx_words r"
| "rx_words Bol = {[]}"
| "rx_words Eol = {[]}"
| "rx_words WordB = {[]}"

definition reads :: "string set \<Rightarrow> mstate \<Rightarrow> mstate \<Rightarrow> bool" where
  "reads W s t \<longleftrightarrow> (\<exists>w \<in> W. fst (snd s) = w @ fst (snd t) \<and> fst t = rev w @ fst s)"

lemma reads_length: "reads W s t \<Longrightarrow> length (fst (snd t)) \<le> length (fst (snd s))"
  by (auto simp: reads_def)

lemma reads_seq:
  assumes "reads U s u" "reads V u t"
  shows "reads {a @ b | a b. a \<in> U \<and> b \<in> V} s t"
proof -
  from assms(1) obtain a where a: "a \<in> U" "fst (snd s) = a @ fst (snd u)" "fst u = rev a @ fst s"
    by (auto simp: reads_def)
  from assms(2) obtain b where b: "b \<in> V" "fst (snd u) = b @ fst (snd t)" "fst t = rev b @ fst u"
    by (auto simp: reads_def)
  have "fst (snd s) = (a @ b) @ fst (snd t)" "fst t = rev (a @ b) @ fst s" using a b by simp_all
  then show ?thesis unfolding reads_def using a(1) b(1) by blast
qed

lemma star_greedy_reads:
  assumes "\<And>s t. t \<in> set (f s) \<Longrightarrow> reads W s t"
  shows "t \<in> set (star_greedy f n s) \<Longrightarrow> reads {concat ws | ws. set ws \<subseteq> W} s t"
proof (induction n arbitrary: s)
  case 0
  then have "t = s" by simp
  moreover have "[] \<in> {concat ws | ws. set ws \<subseteq> W}" by (auto intro: exI[of _ "[]"])
  ultimately show ?case unfolding reads_def by force
next
  case (Suc n)
  from Suc.prems consider "t = s"
    | u where "u \<in> set (f s)" "t \<in> set (star_greedy f n u)"
    by auto
  then show ?case
  proof cases
    case 1
    moreover have "[] \<in> {concat ws | ws. set ws \<subseteq> W}" by (auto intro: exI[of _ "[]"])
    ultimately show ?thesis unfolding reads_def by force
  next
    case 2
    from assms[OF 2(1)] obtain a where a: "a \<in> W" "fst (snd s) = a @ fst (snd u)" "fst u = rev a @ fst s"
      by (auto simp: reads_def)
    from Suc.IH[OF 2(2)] obtain ws where ws: "set ws \<subseteq> W"
      "fst (snd u) = concat ws @ fst (snd t)" "fst t = rev (concat ws) @ fst u"
      by (auto simp: reads_def)
    have "set (a # ws) \<subseteq> W" using a(1) ws(1) by simp
    moreover have "fst (snd s) = concat (a # ws) @ fst (snd t)" using a ws by simp
    moreover have "fst t = rev (concat (a # ws)) @ fst s" using a ws by simp
    ultimately show ?thesis unfolding reads_def by blast
  qed
qed

lemma star_lazy_reads:
  assumes "\<And>s t. t \<in> set (f s) \<Longrightarrow> reads W s t"
  shows "t \<in> set (star_lazy f n s) \<Longrightarrow> reads {concat ws | ws. set ws \<subseteq> W} s t"
proof (induction n arbitrary: s)
  case 0
  then have "t = s" by simp
  moreover have "[] \<in> {concat ws | ws. set ws \<subseteq> W}" by (auto intro: exI[of _ "[]"])
  ultimately show ?case unfolding reads_def by force
next
  case (Suc n)
  from Suc.prems consider "t = s"
    | u where "u \<in> set (f s)" "t \<in> set (star_lazy f n u)"
    by auto
  then show ?case
  proof cases
    case 1
    moreover have "[] \<in> {concat ws | ws. set ws \<subseteq> W}" by (auto intro: exI[of _ "[]"])
    ultimately show ?thesis unfolding reads_def by force
  next
    case 2
    from assms[OF 2(1)] obtain a where a: "a \<in> W" "fst (snd s) = a @ fst (snd u)" "fst u = rev a @ fst s"
      by (auto simp: reads_def)
    from Suc.IH[OF 2(2)] obtain ws where ws: "set ws \<subseteq> W"
      "fst (snd u) = concat ws @ fst (snd t)" "fst t = rev (concat ws) @ fst u"
      by (auto simp: reads_def)
    have "set (a # ws) \<subseteq> W" using a(1) ws(1) by simp
    moreover have "fst (snd s) = concat (a # ws) @ fst (snd t)" using a ws by simp
    moreover have "fst t = rev (concat (a # ws)) @ fst s" using a ws by simp
    ultimately show ?thesis unfolding reads_def by blast
  qed
qed

lemma reads_empty: "reads {[]} s s"
  by (simp add: reads_def)

lemma rx_match_reads: "t \<in> set (rx_match r s) \<Longrightarrow> reads (rx_words r) s t"
proof (induction r arbitrary: s t)
  case Eps
  then show ?case by (simp add: reads_def)
next
  case (Ch P)
  obtain b a c where s: "s = (b, a, c)" by (cases s) auto
  from Ch s obtain x xs where "a = x # xs" "P x" "t = (x # b, xs, c)"
    by (auto split: list.splits if_splits)
  then show ?case using s by (auto simp: reads_def)
next
  case (Seq r1 r2)
  then obtain u where u: "u \<in> set (rx_match r1 s)" "t \<in> set (rx_match r2 u)" by auto
  show ?case using reads_seq[OF Seq.IH(1)[OF u(1)] Seq.IH(2)[OF u(2)]] by simp
next
  case (Alt r1 r2)
  from Alt.prems have "t \<in> set (rx_match r1 s) \<or> t \<in> set (rx_match r2 s)" by simp
  then have "reads (rx_words r1) s t \<or> reads (rx_words r2) s t" using Alt.IH by blast
  then show ?case unfolding reads_def by fastforce
next
  case (Star r)
  then show ?case using star_greedy_reads[of "rx_match r" "rx_words r"] by simp
next
  case (LazyStar r)
  then show ?case using star_lazy_reads[of "rx_match r" "rx_words r"] by simp
next
  case (Grp n r)
  then obtain u where u: "u \<in> set (rx_match r s)" "fst t = fst u" "fst (snd t) = fst (snd u)"
    by (auto split: prod.splits)
  then have "reads (rx_words r) s u" using Grp.IH by blast
  then show ?case using u by (simp add: reads_def)
next
  case Bol
  then show ?case by (simp add: reads_def split: if_splits)
next
  case Eol
  then show ?case by (simp add: reads_def split: if_splits)
next
  case WordB
  then show ?case by (simp add: reads_def split: if_splits)
qed

fun rx_nonempty :: "rx \<Rightarrow> bool" where
  "rx_nonempty (Ch P) = True"
| "rx_nonempty (Seq r1 r2) = (rx_nonempty r1 \<or> rx_nonempty r2)"
| "rx_nonempty (Alt r1 r2) = (rx_nonempty r1 \<and> rx_nonempty r2)"
| "rx_nonempty (Grp n r) = rx_nonempty r"
| "rx_nonempty r = False"

lemma rx_match_consumes:
  "rx_nonempty r \<Longrightarrow> t \<in> set (rx_match r s) \<Longrightarrow> length (fst (snd t)) < length (fst (snd s))"
proof (induction r arbitrary: s t)
  case (Ch P)
  then show ?case by (auto split: prod.splits list.splits if_splits)
next
  case (Seq r1 r2)
  from Seq.prems(2) obtain u where u: "u \<in> set (rx_match r1 s)" "t \<in> set (rx_match r2 u)" by auto
  have a: "length (fst (snd u)) \<le> length (fst (snd s))"
    using rx_match_reads[OF u(1)] by (rule reads_length)
  have b: "length (fst (snd t)) \<le> length (fst (snd u))"
    using rx_match_reads[OF u(2)] by (rule reads_length)
  from Seq.prems(1) have "rx_nonempty r1 \<or> rx_nonempty r2" by simp
  then show ?case
  proof
    assume "rx_nonempty r1"
    then have "length (fst (snd u)) < length (fst (snd s))" using Seq.IH(1) u(1) by blast
    then show ?thesis using b by simp
  next
    assume "rx_nonempty r2"
    then have "length (fst (snd t)) < length (fst (snd u))" using Seq.IH(2) u(2) by blast
    then show ?thesis using a by simp
  qed
next
  case (Alt r1 r2)
  from Alt.prems(1) have n: "rx_nonempty r1" "rx_nonempty r2" by simp_all
  from Alt.prems(2) have "t \<in> set (rx_match r1 s) \<or> t \<in> set (rx_match r2 s)" by simp
  then show ?case using Alt.IH(1)[OF n(1)] Alt.IH(2)[OF n(2)] by blast
next
  case (Grp n r)
  from Grp.prems(2) obtain u where u: "u \<in> set (rx_match r s)" "fst (snd t) = fst (snd u)"
    by (auto split: prod.splits)
  have "length (fst (snd u)) < length (fst (snd s))" using Grp.IH Grp.prems(1) u(1) by simp
  then show ?case using u(2) by simp
qed simp_all

lemma rx_exec_from_shorter:
  "rx_nonempty r \<Longrightarrow> rx_exec_from r bef aft = Some m \<Longrightarrow> length (m_after m) < length aft"
proof (induction aft arbitrary: bef)
  case Nil
  then obtain st where "st \<in> set (rx_match r (bef, [], []))" by (auto split: list.splits)
  then show ?case using rx_match_consumes[OF Nil.prems(1)] by fastforce
next
  case (Cons c cs)
  show ?case
  proof (cases "rx_match r (bef, c # cs, [])")
    case Nil
    then have "rx_exec_from r (c # bef) cs = Some m" using Cons.prems(2) by simp
    then show ?thesis using Cons.IH Cons.prems(1) by fastforce
  next
    case (Cons st sts)
    then have m: "m = mk_result bef st" using Cons.prems(2) by simp
    have "st \<in> set (rx_match r (bef, c # cs, []))" using Cons by simp
    then have "length (fst (snd st)) < length (c # cs)"
      using rx_match_consumes[OF Cons.prems(1)] by fastforce
    then show ?thesis using m by (simp add: mk_result_def split: prod.splits)
  qed
qed

section \<open>Numbers\<close>

text \<open>
  A JavaScript number is \<open>NaN\<close>, an infinity or a finite value. Finite values are exact
  rationals: the rounding of decimal literals to binary64, overflow and underflow are not
  modelled, and \<open>-0\<close> is \<open>0\<close> (the two are equal under \<open>===\<close>). \<open>parseFloat\<close> reads the
  longest prefix that is a decimal literal, after leading white space and a sign.
  \<open>toFixed2\<close> is \<open>toFixed(2)\<close>: the nearest multiple of 1/100, the larger one on a tie;
  from \<open>10^21\<close> on JavaScript switches to exponential notation, which is left out of the
  model (\<open>None\<close>).
\<close>

datatype jsnum = NaN | Fin rat | PosInf | NegInf

definition isNaN :: "jsnum \<Rightarrow> bool" where
  "isNaN n \<longleftrightarrow> n = NaN"

definition js_eq0 :: "jsnum \<Rightarrow> bool" where
  "js_eq0 n \<longleftrightarrow> n = Fin 0"

definition js_gt0 :: "jsnum \<Rightarrow> bool" where
  "js_gt0 n \<longleftrightarrow> (case n of Fin r \<Rightarrow> 0 < r | PosInf \<Rightarrow> True | _ \<Rightarrow> False)"

definition js_lt0 :: "jsnum \<Rightarrow> bool" where
  "js_lt0 n \<longleftrightarrow> (case n of Fin r \<Rightarrow> r < 0 | NegInf \<Rightarrow> True | _ \<Rightarrow> False)"

definition js_neg :: "jsnum \<Rightarrow> jsnum" where
  "js_neg n = (case n of NaN \<Rightarrow> NaN | Fin r \<Rightarrow> Fin (- r) | PosInf \<Rightarrow> NegInf | NegInf \<Rightarrow> PosInf)"

definition Math_abs :: "jsnum \<Rightarrow> jsnum" where
  "Math_abs n = (case n of NaN \<Rightarrow> NaN | Fin r \<Rightarrow> Fin \<bar>r\<bar> | PosInf \<Rightarrow> PosInf | NegInf \<Rightarrow> PosInf)"

definition digit_val :: "char \<Rightarrow> int" where
  "digit_val c =
     (case map_of (zip ''0123456789'' [0, 1, 2, 3, 4, 5, 6, 7, 8, 9]) c of
        Some n \<Rightarrow> n | None \<Rightarrow> 0)"

definition digits_val :: "string \<Rightarrow> int" where
  "digits_val ds = foldl (\<lambda>n c. 10 * n + digit_val c) 0 ds"

definition exponent_factor :: "string \<Rightarrow> rat" where
  "exponent_factor s =
     (case s of
        [] \<Rightarrow> 1
      | e # t \<Rightarrow>
          if e = CHR ''e'' \<or> e = CHR ''E'' then
            (let negative = startsWith t ''-'';
                 u = (if startsWith t ''-'' \<or> startsWith t ''+'' then tl t else t);
                 ds = takeWhile is_digit u
             in if ds = [] then 1
                else if negative then 1 / 10 ^ nat (digits_val ds) else 10 ^ nat (digits_val ds))
          else 1)"

definition parseFloat :: "string \<Rightarrow> jsnum" where
  "parseFloat input =
     (let s = trimStart input;
          negative = startsWith s ''-'';
          u = (if startsWith s ''-'' \<or> startsWith s ''+'' then tl s else s)
      in if startsWith u ''Infinity'' then (if negative then NegInf else PosInf)
         else
           (let ip = takeWhile is_digit u;
                r1 = dropWhile is_digit u;
                fp = (if startsWith r1 ''.'' then takeWhile is_digit (tl r1) else []);
                r2 = (if startsWith r1 ''.'' then dropWhile is_digit (tl r1) else r1);
                v = (of_int (digits_val ip) + of_int (digits_val fp) / 10 ^ length fp)
                      * exponent_factor r2
            in if ip = [] \<and> fp = [] then NaN
               else Fin (if negative then - v else v)))"

function int_to_string :: "int \<Rightarrow> string" where
  "int_to_string n =
     (if n < 10 then [''0123456789'' ! nat n]
      else int_to_string (n div 10) @ [''0123456789'' ! nat (n mod 10)])"
  by pat_completeness auto
termination
  by (relation "measure nat") auto

declare int_to_string.simps [simp del]

definition toFixed2 :: "jsnum \<Rightarrow> string option" where
  "toFixed2 n =
     (case n of
        NaN \<Rightarrow> Some ''NaN''
      | PosInf \<Rightarrow> Some ''Infinity''
      | NegInf \<Rightarrow> Some ''-Infinity''
      | Fin r \<Rightarrow>
          if 10 ^ 21 \<le> \<bar>r\<bar> then None
          else
            (let m = int_to_string \<lfloor>\<bar>r\<bar> * 100 + 1 / 2\<rfloor>;
                 m' = replicate (3 - length m) (CHR ''0'') @ m
             in Some ((if r < 0 then ''-'' else [])
                      @ take (length m' - 2) m' @ ''.'' @ drop (length m' - 2) m')))"

section \<open>Data model (adcb.ts)\<close>

record Transaction =
  date :: string
  payee :: string
  memo :: string
  amount :: jsnum
  originalDate :: string

record ParseResult =
  bankName :: string
  statementType :: string
  transactions :: "Transaction list"
  metadata :: "(string \<times> string) list"
  errors :: "string list"

datatype StatementType = Account | CreditCard

section \<open>Normalization helpers (adcb.ts, enbd.ts)\<close>

definition parseDDMMYYYY :: "string \<Rightarrow> string" where
  "parseDDMMYYYY dateStr =
     (case str_split dateStr (CHR ''/'') of
        [dd, mm, yyyy] \<Rightarrow> yyyy @ ''-'' @ padStart2 mm @ ''-'' @ padStart2 dd
      | _ \<Rightarrow> dateStr)"

definition parseAmount :: "string \<Rightarrow> jsnum" where
  "parseAmount s =
     (if s = [] \<or> s = ''0'' then Fin 0
      else parseFloat (rx_replace_all (Lit '','') [] s))"

definition cleanDescription :: "string \<Rightarrow> string" where
  "cleanDescription desc =
     (if desc = [] then []
      else trim (rx_replace_all (Alt (Seq Bol (Plus sp)) (Seq (Plus sp) Eol)) []
                  (rx_replace_all (Plus sp) '' '' desc)))"

section \<open>ADCB statements (adcb.ts)\<close>

abbreviation not_quote :: rx where
  "not_quote \<equiv> Ch (\<lambda>c. c \<noteq> dquote)"

definition rx_ddmmyyyy :: rx where
  "rx_ddmmyyyy = Seqs [Rep 2 dg, Lit ''/'', Rep 2 dg, Lit ''/'', Rep 4 dg]"

definition rx_trailing_comma :: rx where
  "rx_trailing_comma = Seqs [Star sp, Lit '','', Star sp, Eol]"

definition content_lines :: "string \<Rightarrow> string list" where
  "content_lines content = filter (\<lambda>l. l \<noteq> []) (map trim (str_split content (CHR 0x0A)))"

fun detect_headers :: "string list \<Rightarrow> StatementType option" where
  "detect_headers [] = None"
| "detect_headers (line # rest) =
     (if str_includes line ''Posting Date'' \<and> str_includes line ''Value Date''
          \<and> str_includes line ''Debit Amount'' then Some Account
      else if str_includes line ''Transaction Date'' \<and> str_includes line ''Cr/Dr''
          \<and> str_includes line ''Amount in AED'' then Some CreditCard
      else detect_headers rest)"

definition detectADCBType :: "string \<Rightarrow> StatementType option" where
  "detectADCBType content =
     (let lines = content_lines content in
      if (case lines of [] \<Rightarrow> False | l # _ \<Rightarrow> str_includes l ''Account Number:'') then Some Account
      else if (case lines of [] \<Rightarrow> False | l # _ \<Rightarrow> str_includes l ''Statement Period'')
              \<and> list_ex (\<lambda>l. str_includes l ''Credit Limit'') lines then Some CreditCard
      else detect_headers (take 10 lines))"

definition capture_after :: "rx \<Rightarrow> string \<Rightarrow> string option" where
  "capture_after label line =
     map_option (\<lambda>m. grp_str m 1) (rx_exec (Seqs [label, Star sp, Grp 1 (Plus not_quote)]) line)"

definition adcb_account_metadata :: "string \<Rightarrow> (string \<times> string) list \<Rightarrow> (string \<times> string) list" where
  "adcb_account_metadata line md =
     (let md1 = (if str_includes line ''Account Number:''
                 then (case capture_after (Lit ''Account Number:'') line of
                         Some v \<Rightarrow> AList.update ''accountNumber'' (rx_replace rx_trailing_comma [] (trim v)) md
                       | None \<Rightarrow> md)
                 else md);
          md2 = (if str_includes line ''Statement Period:''
                 then (case capture_after (Lit ''Statement Period:'') line of
                         Some v \<Rightarrow> AList.update ''period'' (rx_replace rx_trailing_comma [] (trim v)) md1
                       | None \<Rightarrow> md1)
                 else md1)
      in if str_includes line ''Account Name''
         then (case capture_after (Lit ''Account Name(s):'') line of
                 Some v \<Rightarrow> AList.update ''accountName'' (rx_replace rx_trailing_comma [] (trim v)) md2
               | None \<Rightarrow> md2)
         else md2)"

fun adcb_account_header ::
  "string list \<Rightarrow> nat \<Rightarrow> (string \<times> string) list \<Rightarrow> (string \<times> string) list \<times> nat option" where
  "adcb_account_header [] i md = (md, None)"
| "adcb_account_header (line # rest) i md =
     (let md' = adcb_account_metadata line md in
      if startsWith line ''Posting Date'' \<or> str_includes line ''Posting Date,Value Date''
      then (md', Some i)
      else adcb_account_header rest (Suc i) md')"

definition adcb_account_row :: "string \<Rightarrow> Transaction option" where
  "adcb_account_row line =
     (let fields = parseCSVLine line in
      if length fields < 6 then None
      else
        (let postingDate = fields ! 0; description = fields ! 3;
             debitStr = fields ! 4; creditStr = fields ! 5
         in if postingDate = [] \<or> \<not> rx_test (Seqs [Bol, rx_ddmmyyyy, Eol]) postingDate then None
            else
              (let debit = parseAmount debitStr; credit = parseAmount creditStr in
               if js_eq0 debit \<and> js_eq0 credit then None
               else Some \<lparr>date = parseDDMMYYYY postingDate,
                          payee = cleanDescription description,
                          memo = [],
                          amount = (if js_gt0 credit then credit else js_neg debit),
                          originalDate = postingDate\<rparr>)))"

definition parseADCBAccount :: "string \<Rightarrow> ParseResult" where
  "parseADCBAccount content =
     (let lines = content_lines content in
      case adcb_account_header lines 0 [] of
        (md, None) \<Rightarrow>
          \<lparr>bankName = ''ADCB'', statementType = ''Account Statement'', transactions = [],
           metadata = md, errors = [''Could not find header row in ADCB account statement'']\<rparr>
      | (md, Some headerIndex) \<Rightarrow>
          \<lparr>bankName = ''ADCB'', statementType = ''Account Statement'',
           transactions = List.map_filter adcb_account_row (drop (headerIndex + 1) lines),
           metadata = md, errors = []\<rparr>)"

definition adcb_creditcard_metadata :: "string \<Rightarrow> (string \<times> string) list \<Rightarrow> (string \<times> string) list" where
  "adcb_creditcard_metadata line md =
     (let md1 = (if str_includes line ''Statement Period''
                 then (case capture_after (Seqs [Lit ''Statement Period'', Star sp, Lit '':'']) line of
                         Some v \<Rightarrow> AList.update ''period'' (trim v) md
                       | None \<Rightarrow> md)
                 else md);
          md2 = (if str_includes line ''Current Balance''
                 then (case capture_after (Lit ''Current Balance:'') line of
                         Some v \<Rightarrow> AList.update ''balance'' (trim v) md1
                       | None \<Rightarrow> md1)
                 else md1)
      in if str_includes line ''Credit Limit'' \<and> \<not> str_includes line ''Available''
         then (case capture_after (Lit ''Credit Limit:'') line of
                 Some v \<Rightarrow> AList.update ''creditLimit'' (trim v) md2
               | None \<Rightarrow> md2)
         else md2)"

fun adcb_creditcard_header ::
  "string list \<Rightarrow> nat \<Rightarrow> (string \<times> string) list \<Rightarrow> (string \<times> string) list \<times> nat option" where
  "adcb_creditcard_header [] i md = (md, None)"
| "adcb_creditcard_header (line # rest) i md =
     (let md' = adcb_creditcard_metadata line md in
      if str_includes line ''Transaction Date'' \<and> str_includes line ''Cr/Dr''
      then (md', Some i)
      else adcb_creditcard_header rest (Suc i) md')"

definition adcb_creditcard_row :: "string \<Rightarrow> Transaction option" where
  "adcb_creditcard_row line =
     (let fields = parseCSVLine line in
      if length fields < 4 then None
      else
        (let dateStr = fields ! 0; description = fields ! 1;
             crDr = fields ! 2; amountStr = fields ! 3
         in if str_includes description ''Primary Card Number''
               \<or> str_includes description ''Card Holder Name'' then None
            else if dateStr = [] \<or> \<not> rx_test (Seqs [Bol, rx_ddmmyyyy, Eol]) dateStr then None
            else
              (let rawAmount = parseAmount amountStr in
               if js_eq0 rawAmount then None
               else Some \<lparr>date = parseDDMMYYYY dateStr,
                          payee = cleanDescription description,
                          memo = [],
                          amount = (if crDr = ''CR'' then rawAmount else js_neg rawAmount),
                          originalDate = dateStr\<rparr>)))"

definition parseADCBCreditCard :: "string \<Rightarrow> ParseResult" where
  "parseADCBCreditCard content =
     (let lines = content_lines content in
      case adcb_creditcard_header lines 0 [] of
        (md, None) \<Rightarrow>
          \<lparr>bankName = ''ADCB'', statementType = ''Credit Card Statement'', transactions = [],
           metadata = md, errors = [''Could not find header row in ADCB credit card statement'']\<rparr>
      | (md, Some headerIndex) \<Rightarrow>
          \<lparr>bankName = ''ADCB'', statementType = ''Credit Card Statement'',
           transactions = List.map_filter adcb_creditcard_row (drop (headerIndex + 1) lines),
           metadata = md, errors = []\<rparr>)"

definition coffee_shop_csv :: string where
  "coffee_shop_csv = ''Account Number: 123\<newline>Posting Date,Value Date,Ref,Description,Debit,Credit\<newline>01/02/2024,01/02/2024,R1,\"Coffee Shop\",15.00,0''"

section \<open>Emirates NBD statements (enbd.ts)\<close>

text \<open>
  A file carries its name, its text content and what the PDF service does with its bytes:
  \<open>getDocument\<close> either rejects with a message or yields the pages, and each page either
  rejects (in \<open>getPage\<close> or \<open>getTextContent\<close>) or yields its text items.
\<close>

record File =
  file_name :: string
  file_text :: string
  file_pdf :: "string + (string + TextItem list) list"

fun pages_text :: "(string + TextItem list) list \<Rightarrow> string + string list" where
  "pages_text [] = Inr []"
| "pages_text (page # rest) =
     (case page of
        Inl err \<Rightarrow> Inl err
      | Inr items \<Rightarrow>
          (case pages_text rest of
             Inl err \<Rightarrow> Inl err
           | Inr texts \<Rightarrow> Inr (pageText (rawItems items) # texts)))"

definition extractTextFromPDF :: "File \<Rightarrow> string + string list" where
  "extractTextFromPDF file =
     (case file_pdf file of Inl err \<Rightarrow> Inl err | Inr pages \<Rightarrow> pages_text pages)"

definition arabic_card_statement :: string where
  "arabic_card_statement =
     [CHR 0xD9, CHR 0x83, CHR 0xD8, CHR 0xB4, CHR 0xD9, CHR 0x81, CHR 0x20, CHR 0xD8, CHR 0xAD,
      CHR 0xD8, CHR 0xB3, CHR 0xD8, CHR 0xA7, CHR 0xD8, CHR 0xA8, CHR 0x20, CHR 0xD8, CHR 0xA8,
      CHR 0xD8, CHR 0xB7, CHR 0xD8, CHR 0xA7, CHR 0xD9, CHR 0x82, CHR 0xD8, CHR 0xA9]"

definition detectENBDType :: "string \<Rightarrow> StatementType option" where
  "detectENBDType txt =
     (if str_includes txt ''Credit Card Statement'' \<or> str_includes txt arabic_card_statement
      then Some CreditCard
      else if str_includes txt ''Account Statement'' \<or> str_includes txt ''STATEMENT OF ACCOUNT''
      then Some Account
      else None)"

definition cleanENBDDescription :: "string \<Rightarrow> string" where
  "cleanENBDDescription desc =
     (if desc = [] then []
      else trim
        (rx_replace_all (Seqs [WordB, LitI ''ABUDHABI'', WordB]) ''ABU DHABI''
          (rx_replace (Seqs [WordB, Lit ''ARE'', Star sp, Eol]) []
            (rx_replace_all (Plus sp) '' '' desc))))"

definition months :: "string \<Rightarrow> string option" where
  "months = map_of
     [(''jan'', ''01''), (''feb'', ''02''), (''mar'', ''03''), (''apr'', ''04''),
      (''may'', ''05''), (''jun'', ''06''), (''jul'', ''07''), (''aug'', ''08''),
      (''sep'', ''09''), (''oct'', ''10''), (''nov'', ''11''), (''dec'', ''12'')]"

definition rx_month_date :: rx where
  "rx_month_date =
     Seqs [Grp 1 (Seq dg (Opt dg)), Plus sp, Grp 2 (Rep 3 (Ch is_word)), Plus sp, Grp 3 (Rep 4 dg)]"

definition parseMonthDate :: "string \<Rightarrow> string" where
  "parseMonthDate dateStr =
     (case rx_exec rx_month_date dateStr of
        None \<Rightarrow> dateStr
      | Some m \<Rightarrow>
          (case months (toLowerCase (grp_str m 2)) of
             None \<Rightarrow> dateStr
           | Some mm \<Rightarrow> grp_str m 3 @ ''-'' @ mm @ ''-'' @ padStart2 (grp_str m 1)))"

subsection \<open>Credit card statement\<close>

abbreviation digit_or_comma :: rx where
  "digit_or_comma \<equiv> Ch (\<lambda>c. is_digit c \<or> c = CHR '','')"

definition rx_amount2 :: rx where
  "rx_amount2 = Seqs [Plus digit_or_comma, Lit ''.'', Rep 2 dg]"

definition rx_cc_primary :: rx where
  "rx_cc_primary =
     Seqs [Bol, Grp 1 rx_ddmmyyyy, Plus sp, Grp 2 rx_ddmmyyyy, Plus sp,
           Grp 3 (LazyPlus (Ch is_dot)), Plus sp, Grp 4 rx_amount2, Opt (Grp 5 (Lit ''CR'')),
           Star sp, Eol]"

definition rx_cc_amount_tail :: rx where
  "rx_cc_amount_tail = Seqs [Grp 1 rx_amount2, Opt (Grp 2 (Lit ''CR'')), Star sp, Eol]"

definition rx_colon_or_space :: rx where
  "rx_colon_or_space = Ch (\<lambda>c. c = CHR '':'' \<or> is_space c)"

definition enbd_cc_metadata :: "string \<Rightarrow> (string \<times> string) list" where
  "enbd_cc_metadata fullText =
     (let md1 = (case rx_exec (Seqs [Lit ''Card Number'', Star rx_colon_or_space,
                    Grp 1 (Plus (Ch (\<lambda>c. is_digit c \<or> c = CHR ''X'' \<or> is_space c \<or> c = CHR ''*'')))])
                    fullText of
                   Some m \<Rightarrow> AList.update ''cardNumber'' (trim (grp_str m 1)) []
                 | None \<Rightarrow> [])
      in case rx_exec (Seqs [Lit ''Statement Period'', Star rx_colon_or_space,
                 Grp 1 (LazyPlus (Ch is_dot)), Alt (Lit ''\<newline>'') Eol]) fullText of
           Some m \<Rightarrow> AList.update ''period'' (trim (grp_str m 1)) md1
         | None \<Rightarrow> md1)"

definition fx_memo :: "string list \<Rightarrow> string" where
  "fx_memo following =
     (case following of
        [] \<Rightarrow> []
      | nextLine # _ \<Rightarrow>
          (let next = trim nextLine in
           if startsWith next ''(1 AED ='' \<or> startsWith next ''(1 USD ='' then next else []))"

definition enbd_cc_row :: "string \<Rightarrow> string list \<Rightarrow> Transaction option" where
  "enbd_cc_row rawLine following =
     (case rx_exec rx_cc_primary (trim rawLine) of
        None \<Rightarrow> None
      | Some txMatch \<Rightarrow>
          (let transDate = grp_str txMatch 1; description = grp_str txMatch 3;
               amountStr = grp_str txMatch 4; crFlag = grp txMatch 5
           in if str_includes description ''Transaction Date''
                 \<or> str_includes description ''Posting Date''
                 \<or> str_includes description ''Previous Statement'' then None
              else
                (let cleanAmount = parseFloat (rx_replace_all (Lit '','') [] amountStr) in
                 if isNaN cleanAmount \<or> js_eq0 cleanAmount then None
                 else Some \<lparr>date = parseDDMMYYYY transDate,
                            payee = cleanENBDDescription description,
                            memo = fx_memo following,
                            amount = (if crFlag = Some ''CR'' then cleanAmount else js_neg cleanAmount),
                            originalDate = transDate\<rparr>)))"

definition enbd_cc_fallback_row :: "string \<Rightarrow> string list \<Rightarrow> Transaction option" where
  "enbd_cc_fallback_row rawLine following =
     (let line = trim rawLine in
      case rx_exec (Seqs [Bol, Grp 1 rx_ddmmyyyy]) line of
        None \<Rightarrow> None
      | Some dateMatch \<Rightarrow>
          (case rx_exec rx_cc_amount_tail line of
             None \<Rightarrow> None
           | Some amountMatch \<Rightarrow>
               (let dateStr = grp_str dateMatch 1;
                    amountStr = grp_str amountMatch 1;
                    isCredit = (grp amountMatch 2 = Some ''CR'');
                    restAfterFirstDate = trim (drop (length (m_text dateMatch)) line);
                    description0 =
                      (case rx_exec (Seqs [Bol, Grp 1 rx_ddmmyyyy, Plus sp]) restAfterFirstDate of
                         Some secondDateMatch \<Rightarrow>
                           drop (length (m_text secondDateMatch)) restAfterFirstDate
                       | None \<Rightarrow> restAfterFirstDate);
                    description = trim (rx_replace rx_cc_amount_tail [] description0)
                in if description = [] \<or> str_includes description ''Transaction Date''
                      \<or> str_includes description ''Posting Date'' then None
                   else
                     (let cleanAmount = parseFloat (rx_replace_all (Lit '','') [] amountStr) in
                      if isNaN cleanAmount \<or> js_eq0 cleanAmount then None
                      else Some \<lparr>date = parseDDMMYYYY dateStr,
                                 payee = cleanENBDDescription description,
                                 memo = fx_memo following,
                                 amount = (if isCredit then cleanAmount else js_neg cleanAmount),
                                 originalDate = dateStr\<rparr>))))"

fun scan_lines :: "(string \<Rightarrow> string list \<Rightarrow> Transaction option) \<Rightarrow> string list \<Rightarrow> Transaction list" where
  "scan_lines row [] = []"
| "scan_lines row (line # following) =
     (case row line following of
        None \<Rightarrow> scan_lines row following
      | Some tx \<Rightarrow> tx # scan_lines row following)"

definition scan_pages :: "(string \<Rightarrow> string list \<Rightarrow> Transaction option) \<Rightarrow> string list \<Rightarrow> Transaction list" where
  "scan_pages row pages = concat (map (\<lambda>page. scan_lines row (str_split page (CHR 0x0A))) pages)"

definition parseENBDCreditCardFallback :: "string list \<Rightarrow> Transaction list \<Rightarrow> Transaction list" where
  "parseENBDCreditCardFallback pages txs = txs @ scan_pages enbd_cc_fallback_row pages"

definition parseENBDCreditCard :: "File \<Rightarrow> ParseResult" where
  "parseENBDCreditCard file =
     (case extractTextFromPDF file of
        Inl message \<Rightarrow>
          \<lparr>bankName = ''Emirates NBD'', statementType = ''Credit Card Statement'',
           transactions = [], metadata = [], errors = [''PDF parsing error: '' @ message]\<rparr>
      | Inr pages \<Rightarrow>
          (let fullText = join ''\<newline>'' pages;
               primary = scan_pages enbd_cc_row pages
           in \<lparr>bankName = ''Emirates NBD'', statementType = ''Credit Card Statement'',
               transactions = (if primary = [] then parseENBDCreditCardFallback pages primary
                               else primary),
               metadata = enbd_cc_metadata fullText, errors = []\<rparr>))"

subsection \<open>Account statement\<close>

definition rx_month_name :: rx where
  "rx_month_name =
     Alts (LitI ''Jan'')
       (map LitI [''Feb'', ''Mar'', ''Apr'', ''May'', ''Jun'',
                  ''Jul'', ''Aug'', ''Sep'', ''Oct'', ''Nov'', ''Dec''])"

definition rx_row_date :: rx where
  "rx_row_date =
     Seqs [Bol, Star sp,
           Grp 1 (Seqs [dg, Opt dg, Plus sp, rx_month_name, Plus sp, Rep 4 dg]), Plus sp]"

definition rx_dated_line :: rx where
  "rx_dated_line = Seqs [Bol, Star sp, dg, Opt dg, Plus sp, rx_month_name, Plus sp, Rep 4 dg]"

definition amountRegex :: rx where
  "amountRegex = Seqs [Opt (Lit ''-''), Plus digit_or_comma, Lit ''.'', Rep 2 dg]"

definition rx_balance_check :: rx where
  "rx_balance_check =
     Seqs [Grp 1 rx_amount2, Star sp, Alt (LitI ''Cr'') (LitI ''Dr''), Star sp, Eol]"

definition rx_page_number :: rx where
  "rx_page_number = Seqs [Bol, Plus dg, Star sp, Lit ''/'', Star sp, Plus dg, Eol]"

record AmountField =
  amt_value :: jsnum
  amt_index :: nat
  amt_length :: nat

lemma amountRegex_nonempty: "rx_nonempty amountRegex"
  by (simp add: amountRegex_def Plus_def Opt_def)

function amounts_from :: "string \<Rightarrow> string \<Rightarrow> AmountField list" where
  "amounts_from bef aft =
     (case rx_exec_from amountRegex bef aft of
        None \<Rightarrow> []
      | Some m \<Rightarrow>
          \<lparr>amt_value = parseFloat (rx_replace_all (Lit '','') [] (m_text m)),
           amt_index = m_index m, amt_length = length (m_text m)\<rparr>
            # amounts_from (m_before m) (m_after m))"
  by pat_completeness auto
termination
  by (relation "measure (\<lambda>(bef, aft). length aft)")
     (auto dest: rx_exec_from_shorter[OF amountRegex_nonempty])

declare amounts_from.simps [simp del]

fun continuation :: "string \<Rightarrow> string list \<Rightarrow> string" where
  "continuation fullDescription [] = fullDescription"
| "continuation fullDescription (nextLine # later) =
     (if rx_test rx_dated_line nextLine then fullDescription
      else
        (let trimmed = trim nextLine in
         if trimmed = [] \<or> str_includes trimmed ''STATEMENT OF ACCOUNT''
            \<or> str_includes trimmed ''electronically generated''
            \<or> str_includes trimmed ''Need help''
            \<or> str_includes trimmed ''Emirates NBD''
            \<or> rx_test rx_page_number trimmed then fullDescription
         else if rx_test (Seqs [Bol, Lit ''This is an'']) trimmed then fullDescription
         else continuation (fullDescription @ '' '' @ trimmed) later))"

definition enbd_account_emit :: "string \<Rightarrow> string \<Rightarrow> jsnum \<Rightarrow> Transaction option" where
  "enbd_account_emit dateStr fullDescription amt =
     (if isNaN amt \<or> js_eq0 amt then None
      else Some \<lparr>date = parseMonthDate dateStr,
                 payee = cleanENBDDescription fullDescription,
                 memo = [],
                 amount = amt,
                 originalDate = dateStr\<rparr>)"

definition enbd_account_row :: "string \<Rightarrow> string list \<Rightarrow> Transaction option" where
  "enbd_account_row line following =
     (case rx_exec rx_row_date line of
        None \<Rightarrow> None
      | Some dateMatch \<Rightarrow>
          (let dateStr = trim (grp_str dateMatch 1);
               rest = drop (length (m_text dateMatch)) line;
               amounts = amounts_from [] rest
           in case amounts of
                [] \<Rightarrow> None
              | first # others \<Rightarrow>
                  (let description = trim (take (amt_index first) rest) in
                   if description = [] \<or> description = ''Description''
                      \<or> str_includes description ''Date'' then None
                   else
                     (let fullDescription = continuation description following in
                      if 2 \<le> length amounts
                      then enbd_account_emit dateStr fullDescription (amt_value first)
                      else if rx_test rx_balance_check rest \<and> length amounts = 1 then None
                      else enbd_account_emit dateStr fullDescription (amt_value first)))))"

definition enbd_account_metadata :: "string \<Rightarrow> (string \<times> string) list" where
  "enbd_account_metadata fullText =
     (let md1 = (case rx_exec (Seqs [Lit ''Account No.'', Star sp, Grp 1 (Plus dg)]) fullText of
                   Some m \<Rightarrow> AList.update ''accountNumber'' (trim (grp_str m 1)) []
                 | None \<Rightarrow> []);
          md2 = (case rx_exec (Seqs [Lit ''IBAN'', Star sp, Grp 1 (Seq (Lit ''AE'') (Plus dg))]) fullText of
                   Some m \<Rightarrow> AList.update ''iban'' (trim (grp_str m 1)) md1
                 | None \<Rightarrow> md1);
          md3 = (case rx_exec (Seqs [LitI ''STATEMENT OF ACCOUNT FOR THE PERIOD OF'', Plus sp,
                          Grp 1 (LazyPlus (Ch is_dot)), Plus sp, LitI ''to'', Plus sp,
                          Grp 2 (LazyPlus (Ch is_dot)), Alt (Lit ''\<newline>'') Eol]) fullText of
                   Some m \<Rightarrow> AList.update ''period''
                               (trim (grp_str m 1) @ '' to '' @ trim (grp_str m 2)) md2
                 | None \<Rightarrow> md2)
      in case rx_exec (Seqs [Lit ''Currency'', Plus sp,
                 Grp 1 (Alts (Lit ''AED'') [Lit ''USD'', Lit ''EUR'', Lit ''GBP''])]) fullText of
           Some m \<Rightarrow> AList.update ''currency'' (trim (grp_str m 1)) md3
         | None \<Rightarrow> md3)"

definition parseENBDAccount :: "File \<Rightarrow> ParseResult" where
  "parseENBDAccount file =
     (case extractTextFromPDF file of
        Inl message \<Rightarrow>
          \<lparr>bankName = ''Emirates NBD'', statementType = ''Account Statement'',
           transactions = [], metadata = [], errors = [''PDF parsing error: '' @ message]\<rparr>
      | Inr pages \<Rightarrow>
          \<lparr>bankName = ''Emirates NBD'', statementType = ''Account Statement'',
           transactions = scan_pages enbd_account_row pages,
           metadata = enbd_account_metadata (join ''\<newline>'' pages), errors = []\<rparr>)"

section \<open>Orchestrator (index.ts)\<close>

definition unknown_result :: "string \<Rightarrow> ParseResult" where
  "unknown_result message =
     \<lparr>bankName = ''Unknown'', statementType = ''Unknown'', transactions = [], metadata = [],
      errors = [message]\<rparr>"

definition parseCSVFile :: "File \<Rightarrow> string + ParseResult" where
  "parseCSVFile file =
     (let content = file_text file in
      case detectADCBType content of
        Some Account \<Rightarrow> Inr (parseADCBAccount content)
      | Some CreditCard \<Rightarrow> Inr (parseADCBCreditCard content)
      | None \<Rightarrow> Inr (unknown_result
          ''Could not detect CSV statement type. Currently supports ADCB account and credit card statements.''))"

definition parsePDFFile :: "File \<Rightarrow> string + ParseResult" where
  "parsePDFFile file =
     (case file_pdf file of
        Inl err \<Rightarrow> Inl err
      | Inr pages \<Rightarrow>
          (case pages of
             [] \<Rightarrow> Inl ''Invalid page request.''
           | firstPage # _ \<Rightarrow>
               (case firstPage of
                  Inl err \<Rightarrow> Inl err
                | Inr items \<Rightarrow>
                    (case detectENBDType (join '' '' (map str items)) of
                       Some CreditCard \<Rightarrow> Inr (parseENBDCreditCard file)
                     | Some Account \<Rightarrow> Inr (parseENBDAccount file)
                     | None \<Rightarrow> Inr (unknown_result
                         ''Could not detect PDF statement type. Currently supports Emirates NBD credit card and account statements.'')))))"

definition parseFile :: "File \<Rightarrow> string + ParseResult" where
  "parseFile file =
     (let fileName = toLowerCase (file_name file) in
      if endsWith fileName ''.csv'' then parseCSVFile file
      else if endsWith fileName ''.pdf'' then parsePDFFile file
      else Inr (unknown_result
        (''Unsupported file type: '' @ fileName @ ''. Please upload a CSV or PDF file.'')))"

section \<open>Export serializer (ynab-export.ts)\<close>

datatype YNABFormat = InflowOutflow | SingleAmount

definition q :: "string \<Rightarrow> string" where
  "q v = [dquote] @ rx_replace_all (Lit [dquote]) [dquote, dquote] v @ [dquote]"

definition formatDate :: "string \<Rightarrow> string" where
  "formatDate isoDate =
     (case str_split isoDate (CHR ''-'') of
        [yyyy, mm, dd] \<Rightarrow> dd @ ''/'' @ mm @ ''/'' @ yyyy
      | _ \<Rightarrow> isoDate)"

definition formatAmount :: "jsnum \<Rightarrow> string option" where
  "formatAmount n =
     map_option
       (\<lambda>fixed. let stripped = rx_replace (Seqs [Opt (Lit ''.''), Plus (Lit ''0''), Eol]) [] fixed
                in if stripped = [] then ''0'' else stripped)
       (toFixed2 (Math_abs n))"

definition ynab_line :: "YNABFormat \<Rightarrow> Transaction \<Rightarrow> string option" where
  "ynab_line format tx =
     (case format of
        InflowOutflow \<Rightarrow>
          map_option
            (\<lambda>amt. let outflow = (if js_lt0 (amount tx) then amt else ''0'');
                        inflow = (if js_gt0 (amount tx) then amt else ''0'')
                    in q (formatDate (date tx)) @ '','' @ q (payee tx) @ '','' @ q (memo tx)
                       @ '','' @ q outflow @ '','' @ q inflow)
            (formatAmount (amount tx))
      | SingleAmount \<Rightarrow>
          map_option
            (\<lambda>amt. q (formatDate (date tx)) @ '','' @ q (payee tx) @ '','' @ q (memo tx)
                       @ '','' @ q ((if js_lt0 (amount tx) then ''-'' else []) @ amt))
            (formatAmount (amount tx)))"

fun all_some :: "'a option list \<Rightarrow> 'a list option" where
  "all_some [] = Some []"
| "all_some (x # xs) =
     (case x of None \<Rightarrow> None
      | Some v \<Rightarrow> (case all_some xs of None \<Rightarrow> None | Some vs \<Rightarrow> Some (v # vs)))"

definition toYNABCSV :: "Transaction list \<Rightarrow> YNABFormat \<Rightarrow> string option" where
  "toYNABCSV txs format =
     map_option
       (\<lambda>rows. join ''\<newline>''
          ((case format of
              InflowOutflow \<Rightarrow>
                q ''Date'' @ '','' @ q ''Payee'' @ '','' @ q ''Memo'' @ '','' @ q ''Outflow''
                  @ '','' @ q ''Inflow''
            | SingleAmount \<Rightarrow>
                q ''Date'' @ '','' @ q ''Payee'' @ '','' @ q ''Memo'' @ '','' @ q ''Amount'') # rows))
       (all_some (map (ynab_line format) txs))"

section \<open>Properties of the export serializer\<close>

lemma toFixed2_42_5: "toFixed2 (Fin (85 / 2)) = Some ''42.50''"
  by code_simp

lemma formatAmount_42_5: "formatAmount (Fin (85 / 2)) = Some ''42.5''"
proof -
  have "rx_replace (Seqs [Opt (Lit ''.''), Plus (Lit ''0''), Eol]) [] ''42.50'' = ''42.5''"
    by code_simp
  then show ?thesis
    by (simp add: formatAmount_def Math_abs_def toFixed2_42_5)
qed

lemma q_values:
  "q ''Date'' = ''\"Date\"''" "q ''Payee'' = ''\"Payee\"''" "q ''Memo'' = ''\"Memo\"''"
  "q ''Outflow'' = ''\"Outflow\"''" "q ''Inflow'' = ''\"Inflow\"''"
  "q ''01/02/2024'' = ''\"01/02/2024\"''" "q ''Acme, Inc'' = ''\"Acme, Inc\"''"
  "q [] = ''\"\"''" "q ''0'' = ''\"0\"''" "q ''42.5'' = ''\"42.5\"''"
  by code_simp+

text \<open>
  C3. One inflow transaction of 42.5 dated 2024-02-01, payee \<open>Acme, Inc\<close>, empty memo, in the
  inflow/outflow format: after the header line the serializer writes the data line
  \<open>"01/02/2024","Acme, Inc","","0","42.5"\<close>, every field quoted, the date as DD/MM/YYYY,
  the unused outflow column \<open>0\<close> and the amount without its trailing zero.
\<close>

theorem toYNABCSV_inflow_scenario:
  "toYNABCSV [\<lparr>date = ''2024-02-01'', payee = ''Acme, Inc'', memo = [], amount = Fin 42.5,
               originalDate = od\<rparr>] InflowOutflow
   = Some (''\"Date\",\"Payee\",\"Memo\",\"Outflow\",\"Inflow\"'' @ ''\<newline>''
           @ ''\"01/02/2024\",\"Acme, Inc\",\"\",\"0\",\"42.5\"'')"
proof -
  have d: "formatDate ''2024-02-01'' = ''01/02/2024''" by code_simp
  show ?thesis
    by (simp add: toYNABCSV_def ynab_line_def formatAmount_42_5 d q_values js_lt0_def js_gt0_def)
qed

section \<open>Properties of the ADCB parsers\<close>

lemma adcb_account_row_sign:
  "adcb_account_row line = Some tx \<Longrightarrow>
   amount tx = (if js_gt0 (parseAmount (parseCSVLine line ! 5)) then parseAmount (parseCSVLine line ! 5)
                else js_neg (parseAmount (parseCSVLine line ! 4)))"
  by (auto simp: adcb_account_row_def Let_def split: if_splits)

lemma coffee_shop_row:
  "adcb_account_row ''01/02/2024,01/02/2024,R1,\"Coffee Shop\",15.00,0''
   = Some \<lparr>date = ''2024-02-01'', payee = ''Coffee Shop'', memo = [], amount = Fin (- 15),
            originalDate = ''01/02/2024''\<rparr>"
  by code_simp

text \<open>
  C8. The three-line statement \<open>coffee_shop_csv\<close> is detected as an ADCB account statement
  and parses to exactly one transaction, dated 2024-02-01, payee \<open>Coffee Shop\<close>, amount -15.
  Every transaction a row yields takes its amount from the two amount columns by the sign
  rule: the credit when the credit is positive, the negated debit otherwise.
\<close>

theorem parseADCBAccount_coffee_shop:
  "detectADCBType coffee_shop_csv = Some Account
   \<and> transactions (parseADCBAccount coffee_shop_csv)
       = [\<lparr>date = ''2024-02-01'', payee = ''Coffee Shop'', memo = [], amount = Fin (- 15),
           originalDate = ''01/02/2024''\<rparr>]
   \<and> (adcb_account_row line = Some tx \<longrightarrow>
        amount tx = (if js_gt0 (parseAmount (parseCSVLine line ! 5))
                     then parseAmount (parseCSVLine line ! 5)
                     else js_neg (parseAmount (parseCSVLine line ! 4))))"
proof -
  have "detectADCBType coffee_shop_csv = Some Account" by code_simp
  moreover have "transactions (parseADCBAccount coffee_shop_csv)
       = [\<lparr>date = ''2024-02-01'', payee = ''Coffee Shop'', memo = [], amount = Fin (- 15),
           originalDate = ''01/02/2024''\<rparr>]" by code_simp
  ultimately show ?thesis using adcb_account_row_sign by blast
qed

theorem parseADCBAccount_coffee_shop_witness:
  "adcb_account_row ''01/02/2024,01/02/2024,R1,\"Coffee Shop\",15.00,0''
     = Some \<lparr>date = ''2024-02-01'', payee = ''Coffee Shop'', memo = [], amount = Fin (- 15),
              originalDate = ''01/02/2024''\<rparr>
   \<and> Fin (- 15) = (if js_gt0 (parseAmount (parseCSVLine ''01/02/2024,01/02/2024,R1,\"Coffee Shop\",15.00,0'' ! 5))
                   then parseAmount (parseCSVLine ''01/02/2024,01/02/2024,R1,\"Coffee Shop\",15.00,0'' ! 5)
                   else js_neg (parseAmount (parseCSVLine ''01/02/2024,01/02/2024,R1,\"Coffee Shop\",15.00,0'' ! 4)))"
  using parseADCBAccount_coffee_shop[of "''01/02/2024,01/02/2024,R1,\"Coffee Shop\",15.00,0''"
      "\<lparr>date = ''2024-02-01'', payee = ''Coffee Shop'', memo = [], amount = Fin (- 15),
        originalDate = ''01/02/2024''\<rparr>"]
    coffee_shop_row
  by simp

text \<open>
  C1 fails for the ADCB account parser. A row with a zero debit and a negative credit passes
  the zero check (it tests that both columns are zero), the credit is not positive, and the
  amount is the negated debit: a transaction with amount zero.
\<close>

theorem parseADCBAccount_zero_amount:
  "transactions (parseADCBAccount
      (''Account Number: 123\<newline>Posting Date,Value Date,Ref,Description,Debit,Credit\<newline>''
       @ ''01/02/2024,01/02/2024,R1,Reversal,0.00,-15.00''))
   = [\<lparr>date = ''2024-02-01'', payee = ''Reversal'', memo = [], amount = Fin 0,
       originalDate = ''01/02/2024''\<rparr>]"
  by code_simp

lemma js_eq0_neg: "js_eq0 (js_neg n) = js_eq0 n"
  by (cases n) (simp_all add: js_eq0_def js_neg_def)

lemma adcb_creditcard_row_nonzero:
  "adcb_creditcard_row line = Some tx \<Longrightarrow> \<not> js_eq0 (amount tx)"
  by (auto simp: adcb_creditcard_row_def Let_def js_eq0_neg split: if_splits)

lemma enbd_cc_row_nonzero:
  "enbd_cc_row line following = Some tx \<Longrightarrow> \<not> js_eq0 (amount tx)"
  by (auto simp: enbd_cc_row_def Let_def js_eq0_neg split: if_splits option.splits)

lemma enbd_cc_fallback_row_nonzero:
  "enbd_cc_fallback_row line following = Some tx \<Longrightarrow> \<not> js_eq0 (amount tx)"
  by (auto simp: enbd_cc_fallback_row_def Let_def js_eq0_neg split: if_splits option.splits)

lemma enbd_account_emit_nonzero:
  "enbd_account_emit d desc amt = Some tx \<Longrightarrow> amount tx = amt \<and> \<not> js_eq0 amt"
  by (auto simp: enbd_account_emit_def split: if_splits)

lemma enbd_account_row_nonzero:
  "enbd_account_row line following = Some tx \<Longrightarrow> \<not> js_eq0 (amount tx)"
  by (auto simp: enbd_account_row_def Let_def dest: enbd_account_emit_nonzero
      split: if_splits option.splits list.splits)

lemma scan_lines_all:
  assumes "\<And>line following tx. row line following = Some tx \<Longrightarrow> P tx"
  shows "tx \<in> set (scan_lines row ls) \<Longrightarrow> P tx"
  by (induction ls) (auto split: option.splits dest: assms)

lemma scan_pages_all:
  assumes "\<And>line following tx. row line following = Some tx \<Longrightarrow> P tx"
  shows "tx \<in> set (scan_pages row pages) \<Longrightarrow> P tx"
  using scan_lines_all[of row P, OF assms] by (auto simp: scan_pages_def)

lemma map_filter_mem:
  "y \<in> set (List.map_filter f xs) \<Longrightarrow> \<exists>x \<in> set xs. f x = Some y"
  by (auto simp: List.map_filter_def)

lemma other_extractors_nonzero:
  "tx \<in> set (transactions (parseADCBCreditCard content)) \<Longrightarrow> \<not> js_eq0 (amount tx)"
  "tx \<in> set (transactions (parseENBDCreditCard file)) \<Longrightarrow> \<not> js_eq0 (amount tx)"
  "tx \<in> set (transactions (parseENBDAccount file)) \<Longrightarrow> \<not> js_eq0 (amount tx)"
proof -
  show "tx \<in> set (transactions (parseADCBCreditCard content)) \<Longrightarrow> \<not> js_eq0 (amount tx)"
    by (auto simp: parseADCBCreditCard_def Let_def
        dest!: map_filter_mem dest: adcb_creditcard_row_nonzero split: prod.splits option.splits)
  show "tx \<in> set (transactions (parseENBDCreditCard file)) \<Longrightarrow> \<not> js_eq0 (amount tx)"
    using scan_pages_all[of enbd_cc_row "\<lambda>t. \<not> js_eq0 (amount t)", OF enbd_cc_row_nonzero]
      scan_pages_all[of enbd_cc_fallback_row "\<lambda>t. \<not> js_eq0 (amount t)",
        OF enbd_cc_fallback_row_nonzero]
    by (auto simp: parseENBDCreditCard_def parseENBDCreditCardFallback_def Let_def
        split: sum.splits if_splits)
  show "tx \<in> set (transactions (parseENBDAccount file)) \<Longrightarrow> \<not> js_eq0 (amount tx)"
    using scan_pages_all[of enbd_account_row "\<lambda>t. \<not> js_eq0 (amount t)",
        OF enbd_account_row_nonzero]
    by (auto simp: parseENBDAccount_def split: sum.splits)
qed

section \<open>Properties of the orchestrator\<close>

lemma parsePDFFile_fault: "file_pdf file = Inl err \<Longrightarrow> parsePDFFile file = Inl err"
  by (simp add: parsePDFFile_def)

lemma parseFile_rejects:
  "parseFile f = Inl e \<longleftrightarrow>
     \<not> endsWith (toLowerCase (file_name f)) ''.csv'' \<and> endsWith (toLowerCase (file_name f)) ''.pdf''
     \<and> (file_pdf f = Inl e \<or> (file_pdf f = Inr [] \<and> e = ''Invalid page request.'')
         \<or> (\<exists>rest. file_pdf f = Inr (Inl e # rest)))"
  by (auto simp: parseFile_def parseCSVFile_def parsePDFFile_def Let_def
      split: option.splits StatementType.splits sum.splits list.splits)

text \<open>
  C2 fails. For a file named \<open>statement.pdf\<close> whose bytes the PDF service rejects, the
  orchestrator's own first-page read is not guarded and \<open>parseFile\<close> rejects with the
  service's message instead of returning a result.
\<close>

theorem parseFile_corrupt_pdf:
  "parseFile \<lparr>file_name = ''statement.pdf'', file_text = [],
              file_pdf = Inl ''Invalid PDF structure.''\<rparr>
   = Inl ''Invalid PDF structure.''"
  by code_simp

section \<open>Classification of results\<close>

definition undetected :: "File \<Rightarrow> bool" where
  "undetected file \<longleftrightarrow>
     (let fileName = toLowerCase (file_name file) in
      if endsWith fileName ''.csv'' then detectADCBType (file_text file) = None
      else if endsWith fileName ''.pdf'' then
        (case file_pdf file of
           Inr (Inr items # _) \<Rightarrow> detectENBDType (join '' '' (map str items)) = None
         | _ \<Rightarrow> False)
      else True)"

lemma adcb_account_header_none:
  "\<forall>l \<in> set ls. \<not> startsWith l ''Posting Date'' \<and> \<not> str_includes l ''Posting Date,Value Date''
   \<Longrightarrow> snd (adcb_account_header ls i md) = None"
  by (induction ls arbitrary: i md) (simp_all add: Let_def)

lemma adcb_creditcard_header_none:
  "\<forall>l \<in> set ls. \<not> (str_includes l ''Transaction Date'' \<and> str_includes l ''Cr/Dr'')
   \<Longrightarrow> snd (adcb_creditcard_header ls i md) = None"
  by (induction ls arbitrary: i md) (simp_all add: Let_def)

lemma parseADCBAccount_class:
  "bankName (parseADCBAccount c) = ''ADCB'' \<and> statementType (parseADCBAccount c) = ''Account Statement''"
  by (simp add: parseADCBAccount_def Let_def split: prod.splits option.splits)

lemma parseADCBCreditCard_class:
  "bankName (parseADCBCreditCard c) = ''ADCB''
   \<and> statementType (parseADCBCreditCard c) = ''Credit Card Statement''"
  by (simp add: parseADCBCreditCard_def Let_def split: prod.splits option.splits)

lemma parseENBDCreditCard_class:
  "bankName (parseENBDCreditCard f) = ''Emirates NBD''
   \<and> statementType (parseENBDCreditCard f) = ''Credit Card Statement''"
  by (simp add: parseENBDCreditCard_def Let_def split: sum.splits)

lemma parseENBDAccount_class:
  "bankName (parseENBDAccount f) = ''Emirates NBD''
   \<and> statementType (parseENBDAccount f) = ''Account Statement''"
  by (simp add: parseENBDAccount_def Let_def split: sum.splits)

lemma parseADCBAccount_no_header:
  assumes "\<forall>l \<in> set (content_lines c).
             \<not> startsWith l ''Posting Date'' \<and> \<not> str_includes l ''Posting Date,Value Date''"
  shows "transactions (parseADCBAccount c) = []
         \<and> errors (parseADCBAccount c) = [''Could not find header row in ADCB account statement'']"
proof -
  obtain md h where h: "adcb_account_header (content_lines c) 0 [] = (md, h)"
    by (cases "adcb_account_header (content_lines c) 0 []") auto
  have "h = None" using adcb_account_header_none[OF assms, of 0 "[]"] h by simp
  then show ?thesis using h by (simp add: parseADCBAccount_def Let_def)
qed

lemma parseADCBCreditCard_no_header:
  assumes "\<forall>l \<in> set (content_lines c).
             \<not> (str_includes l ''Transaction Date'' \<and> str_includes l ''Cr/Dr'')"
  shows "transactions (parseADCBCreditCard c) = []
         \<and> errors (parseADCBCreditCard c) = [''Could not find header row in ADCB credit card statement'']"
proof -
  obtain md h where h: "adcb_creditcard_header (content_lines c) 0 [] = (md, h)"
    by (cases "adcb_creditcard_header (content_lines c) 0 []") auto
  have "h = None" using adcb_creditcard_header_none[OF assms, of 0 "[]"] h by simp
  then show ?thesis using h by (simp add: parseADCBCreditCard_def Let_def)
qed

lemma parseENBD_fault:
  assumes "extractTextFromPDF f = Inl e"
  shows "transactions (parseENBDCreditCard f) = []
         \<and> errors (parseENBDCreditCard f) = [''PDF parsing error: '' @ e]
         \<and> transactions (parseENBDAccount f) = []
         \<and> errors (parseENBDAccount f) = [''PDF parsing error: '' @ e]"
  using assms by (simp add: parseENBDCreditCard_def parseENBDAccount_def)

lemma parseCSVFile_unknown:
  "parseCSVFile g = Inr r \<Longrightarrow>
   (bankName r = ''Unknown'' \<longleftrightarrow> detectADCBType (file_text g) = None)
   \<and> (statementType r = ''Unknown'' \<longleftrightarrow> detectADCBType (file_text g) = None)"
  using parseADCBAccount_class[of "file_text g"] parseADCBCreditCard_class[of "file_text g"]
  by (auto simp: parseCSVFile_def Let_def unknown_result_def
      split: option.splits StatementType.splits)

lemma parsePDFFile_unknown:
  "parsePDFFile g = Inr r \<Longrightarrow>
   (bankName r = ''Unknown'' \<longleftrightarrow>
      (case file_pdf g of
         Inr (Inr items # _) \<Rightarrow> detectENBDType (join '' '' (map str items)) = None
       | _ \<Rightarrow> False))
   \<and> (statementType r = ''Unknown'' \<longleftrightarrow>
      (case file_pdf g of
         Inr (Inr items # _) \<Rightarrow> detectENBDType (join '' '' (map str items)) = None
       | _ \<Rightarrow> False))"
  using parseENBDCreditCard_class[of g] parseENBDAccount_class[of g]
  by (auto simp: parsePDFFile_def unknown_result_def
      split: sum.splits list.splits option.splits StatementType.splits)

lemma parseFile_unknown:
  "parseFile g = Inr r \<Longrightarrow>
   (bankName r = ''Unknown'' \<longleftrightarrow> undetected g) \<and> (statementType r = ''Unknown'' \<longleftrightarrow> undetected g)"
proof -
  assume a: "parseFile g = Inr r"
  let ?n = "toLowerCase (file_name g)"
  show ?thesis
  proof (cases "endsWith ?n ''.csv''")
    case True
    then have "parseCSVFile g = Inr r" using a by (simp add: parseFile_def Let_def)
    from parseCSVFile_unknown[OF this] show ?thesis using True by (simp add: undetected_def Let_def)
  next
    case csv: False
    show ?thesis
    proof (cases "endsWith ?n ''.pdf''")
      case True
      then have "parsePDFFile g = Inr r" using a csv by (simp add: parseFile_def Let_def)
      from parsePDFFile_unknown[OF this] show ?thesis
        using True csv by (simp add: undetected_def Let_def)
    next
      case False
      then show ?thesis using a csv
        by (auto simp: parseFile_def Let_def undetected_def unknown_result_def)
    qed
  qed
qed

text \<open>
  C10. Each bank parser returns its own fixed bank name and statement type on every input,
  also when extraction fails: a missing header row, or a fault of the PDF service caught by
  the parser, gives an empty transaction list and one error under the same classification.
  A result of \<open>parseFile\<close> is classified \<open>Unknown\<close> exactly when the file suffix is not
  routed or the detector finds no statement type.
\<close>

theorem parser_classification:
  "(bankName (parseADCBAccount c) = ''ADCB''
      \<and> statementType (parseADCBAccount c) = ''Account Statement'')
   \<and> (bankName (parseADCBCreditCard c) = ''ADCB''
      \<and> statementType (parseADCBCreditCard c) = ''Credit Card Statement'')
   \<and> (bankName (parseENBDCreditCard f) = ''Emirates NBD''
      \<and> statementType (parseENBDCreditCard f) = ''Credit Card Statement'')
   \<and> (bankName (parseENBDAccount f) = ''Emirates NBD''
      \<and> statementType (parseENBDAccount f) = ''Account Statement'')
   \<and> ((\<forall>l \<in> set (content_lines c).
          \<not> startsWith l ''Posting Date'' \<and> \<not> str_includes l ''Posting Date,Value Date'')
       \<longrightarrow> transactions (parseADCBAccount c) = []
           \<and> errors (parseADCBAccount c) = [''Could not find header row in ADCB account statement''])
   \<and> ((\<forall>l \<in> set (content_lines c).
          \<not> (str_includes l ''Transaction Date'' \<and> str_includes l ''Cr/Dr''))
       \<longrightarrow> transactions (parseADCBCreditCard c) = []
           \<and> errors (parseADCBCreditCard c)
               = [''Could not find header row in ADCB credit card statement''])
   \<and> (extractTextFromPDF f = Inl e
       \<longrightarrow> transactions (parseENBDCreditCard f) = []
           \<and> errors (parseENBDCreditCard f) = [''PDF parsing error: '' @ e]
           \<and> transactions (parseENBDAccount f) = []
           \<and> errors (parseENBDAccount f) = [''PDF parsing error: '' @ e])
   \<and> (parseFile g = Inr r
       \<longrightarrow> (bankName r = ''Unknown'' \<longleftrightarrow> undetected g)
           \<and> (statementType r = ''Unknown'' \<longleftrightarrow> undetected g))"
  using parseADCBAccount_class[of c] parseADCBCreditCard_class[of c]
    parseENBDCreditCard_class[of f] parseENBDAccount_class[of f]
    parseADCBAccount_no_header[of c] parseADCBCreditCard_no_header[of c]
    parseENBD_fault[of f e] parseFile_unknown[of g r]
  by blast

theorem parser_classification_witness:
  "list_all (\<lambda>l. \<not> startsWith l ''Posting Date'' \<and> \<not> str_includes l ''Posting Date,Value Date'')
     (content_lines ''Account Number: 1'')
   \<and> errors (parseADCBAccount ''Account Number: 1'')
       = [''Could not find header row in ADCB account statement'']
   \<and> list_all (\<lambda>l. \<not> (str_includes l ''Transaction Date'' \<and> str_includes l ''Cr/Dr''))
     (content_lines ''Account Number: 1'')
   \<and> errors (parseADCBCreditCard ''Account Number: 1'')
       = [''Could not find header row in ADCB credit card statement'']
   \<and> extractTextFromPDF \<lparr>file_name = ''a.pdf'', file_text = [], file_pdf = Inl ''bad file''\<rparr>
       = Inl ''bad file''
   \<and> errors (parseENBDAccount \<lparr>file_name = ''a.pdf'', file_text = [], file_pdf = Inl ''bad file''\<rparr>)
       = [''PDF parsing error: bad file'']
   \<and> parseFile \<lparr>file_name = ''report.txt'', file_text = [], file_pdf = Inl ''bad file''\<rparr>
       = Inr (unknown_result
           ''Unsupported file type: report.txt. Please upload a CSV or PDF file.'')
   \<and> undetected \<lparr>file_name = ''report.txt'', file_text = [], file_pdf = Inl ''bad file''\<rparr>"
proof -
  have h1: "\<forall>l \<in> set (content_lines ''Account Number: 1'').
       \<not> startsWith l ''Posting Date'' \<and> \<not> str_includes l ''Posting Date,Value Date''"
    by code_simp
  have h2: "\<forall>l \<in> set (content_lines ''Account Number: 1'').
       \<not> (str_includes l ''Transaction Date'' \<and> str_includes l ''Cr/Dr'')"
    by code_simp
  have h3: "extractTextFromPDF \<lparr>file_name = ''a.pdf'', file_text = [], file_pdf = Inl ''bad file''\<rparr>
       = Inl ''bad file''"
    by code_simp
  have h4: "parseFile \<lparr>file_name = ''report.txt'', file_text = [], file_pdf = Inl ''bad file''\<rparr>
       = Inr (unknown_result
           ''Unsupported file type: report.txt. Please upload a CSV or PDF file.'')"
    by code_simp
  have u: "bankName (unknown_result
           ''Unsupported file type: report.txt. Please upload a CSV or PDF file.'') = ''Unknown''"
    by (simp add: unknown_result_def)
  show ?thesis
    using parser_classification[of "''Account Number: 1''"
        "\<lparr>file_name = ''a.pdf'', file_text = [], file_pdf = Inl ''bad file''\<rparr>" "''bad file''"
        "\<lparr>file_name = ''report.txt'', file_text = [], file_pdf = Inl ''bad file''\<rparr>"
        "unknown_result ''Unsupported file type: report.txt. Please upload a CSV or PDF file.''"]
      h1 h2 h3 h4 u
    by (simp add: list_all_iff)
qed

section \<open>Finding a match\<close>

definition accepts :: "rx \<Rightarrow> string \<Rightarrow> string \<Rightarrow> string \<Rightarrow> bool" where
  "accepts r bef w rest \<longleftrightarrow>
     (\<forall>caps. \<exists>caps'. (rev w @ bef, rest, caps') \<in> set (rx_match r (bef, w @ rest, caps)))"

lemma accepts_Eps: "accepts Eps bef [] rest"
  by (simp add: accepts_def)

lemma accepts_Ch: "P c \<Longrightarrow> accepts (Ch P) bef [c] rest"
  by (simp add: accepts_def)

lemma accepts_Seq:
  assumes "accepts r1 bef u (v @ rest)" "accepts r2 (rev u @ bef) v rest"
  shows "accepts (Seq r1 r2) bef (u @ v) rest"
  unfolding accepts_def
proof
  fix caps
  from assms(1) obtain c1 where c1: "(rev u @ bef, v @ rest, c1) \<in> set (rx_match r1 (bef, u @ v @ rest, caps))"
    unfolding accepts_def by blast
  from assms(2) obtain c2 where c2: "(rev v @ rev u @ bef, rest, c2) \<in> set (rx_match r2 (rev u @ bef, v @ rest, c1))"
    unfolding accepts_def by blast
  have "(rev (u @ v) @ bef, rest, c2) \<in> set (rx_match (Seq r1 r2) (bef, (u @ v) @ rest, caps))"
    using c1 c2 by auto
  then show "\<exists>caps'. (rev (u @ v) @ bef, rest, caps') \<in> set (rx_match (Seq r1 r2) (bef, (u @ v) @ rest, caps))"
    by blast
qed

lemma accepts_Alt1: "accepts r1 bef w rest \<Longrightarrow> accepts (Alt r1 r2) bef w rest"
  unfolding accepts_def by (metis UnCI rx_match.simps(4) set_append)

lemma accepts_Alt2: "accepts r2 bef w rest \<Longrightarrow> accepts (Alt r1 r2) bef w rest"
  unfolding accepts_def by (metis UnCI rx_match.simps(4) set_append)

lemma accepts_Grp: "accepts r bef w rest \<Longrightarrow> accepts (Grp n r) bef w rest"
  unfolding accepts_def
proof
  fix caps
  assume "\<forall>caps. \<exists>caps'. (rev w @ bef, rest, caps') \<in> set (rx_match r (bef, w @ rest, caps))"
  then obtain c1 where "(rev w @ bef, rest, c1) \<in> set (rx_match r (bef, w @ rest, caps))" by blast
  then have "(rev w @ bef, rest, (n, rev (take (length (rev w @ bef) - length bef) (rev w @ bef))) # c1)
      \<in> set (rx_match (Grp n r) (bef, w @ rest, caps))"
    by force
  then show "\<exists>caps'. (rev w @ bef, rest, caps') \<in> set (rx_match (Grp n r) (bef, w @ rest, caps))"
    by blast
qed

lemma accepts_Eol: "accepts Eol bef [] []"
  by (simp add: accepts_def)

lemma star_greedy_class_mem:
  assumes f: "\<And>b c cs caps. P c \<Longrightarrow> f (b, c # cs, caps) = [(c # b, cs, caps)]"
  shows "list_all P xs \<Longrightarrow> length xs \<le> n \<Longrightarrow>
         (rev xs @ bef, rest, caps) \<in> set (star_greedy f n (bef, xs @ rest, caps))"
proof (induction xs arbitrary: bef n)
  case Nil
  then show ?case by (cases n) simp_all
next
  case (Cons x xs)
  then obtain k where n: "n = Suc k" by (cases n) auto
  have step: "f (bef, x # xs @ rest, caps) = [(x # bef, xs @ rest, caps)]"
    using f Cons.prems(1) by simp
  have "(rev xs @ x # bef, rest, caps) \<in> set (star_greedy f k (x # bef, xs @ rest, caps))"
    using Cons.IH[of k "x # bef"] Cons.prems n by simp
  then show ?case unfolding n by (simp add: step)
qed

lemma accepts_Star: "list_all P xs \<Longrightarrow> accepts (Star (Ch P)) bef xs rest"
proof -
  assume a: "list_all P xs"
  have "(rev xs @ bef, rest, caps) \<in> set (star_greedy (rx_match (Ch P)) (length (xs @ rest))
          (bef, xs @ rest, caps))" for caps
    by (rule star_greedy_class_mem) (use a in simp_all)
  then have h: "(rev xs @ bef, rest, caps) \<in> set (rx_match (Star (Ch P)) (bef, xs @ rest, caps))"
    for caps by simp
  show ?thesis unfolding accepts_def
  proof (intro allI exI)
    fix caps
    show "(rev xs @ bef, rest, caps) \<in> set (rx_match (Star (Ch P)) (bef, xs @ rest, caps))"
      by (rule h)
  qed
qed

lemma accepts_Plus: "list_all P xs \<Longrightarrow> xs \<noteq> [] \<Longrightarrow> accepts (Plus (Ch P)) bef xs rest"
proof -
  assume a: "list_all P xs" "xs \<noteq> []"
  then obtain x xs' where x: "xs = x # xs'" by (cases xs) auto
  have "accepts (Seq (Ch P) (Star (Ch P))) bef ([x] @ xs') rest"
    using a x by (intro accepts_Seq accepts_Ch accepts_Star) simp_all
  then show ?thesis by (simp add: Plus_def x)
qed

lemma accepts_Lit: "accepts (Lit w) bef w rest"
proof (induction w arbitrary: bef)
  case Nil
  then show ?case by (simp add: accepts_Eps)
next
  case (Cons c w)
  have "accepts (Seq (Ch (\<lambda>x. x = c)) (Lit w)) bef ([c] @ w) rest"
    by (intro accepts_Seq accepts_Ch) (simp_all add: Cons.IH)
  then show ?case by simp
qed

lemma accepts_LitI: "toLowerCase w' = toLowerCase w \<Longrightarrow> accepts (LitI w) bef w' rest"
proof (induction w arbitrary: bef w')
  case Nil
  then show ?case by (simp add: accepts_Eps toLowerCase_def)
next
  case (Cons c w)
  then obtain c' v where v: "w' = c' # v" "toLowerChar c' = toLowerChar c" "toLowerCase v = toLowerCase w"
    by (cases w') (auto simp: toLowerCase_def)
  have "accepts (Seq (Ch (\<lambda>x. toLowerChar x = toLowerChar c)) (LitI w)) bef ([c'] @ v) rest"
    using v by (intro accepts_Seq accepts_Ch) (simp_all add: Cons.IH)
  then show ?case using v by simp
qed

lemma accepts_Rep: "list_all P xs \<Longrightarrow> accepts (Rep (length xs) (Ch P)) bef xs rest"
proof (induction xs arbitrary: bef)
  case Nil
  then show ?case by (simp add: accepts_Eps)
next
  case (Cons x xs)
  have "accepts (Seq (Ch P) (Rep (length xs) (Ch P))) bef ([x] @ xs) rest"
    using Cons by (intro accepts_Seq accepts_Ch) simp_all
  then show ?case by simp
qed

lemma accepts_nonempty: "accepts r bef w rest \<Longrightarrow> rx_match r (bef, w @ rest, []) \<noteq> []"
  unfolding accepts_def by (metis empty_iff list.set(1))

lemma rx_exec_from_found:
  "rx_match r (rev pre @ bef, aft, []) \<noteq> [] \<Longrightarrow> rx_exec_from r bef (pre @ aft) \<noteq> None"
proof (induction pre arbitrary: bef)
  case Nil
  then show ?case by (cases aft) (auto split: list.splits)
next
  case (Cons c pre)
  have "rx_exec_from r (c # bef) (pre @ aft) \<noteq> None" using Cons.IH[of "c # bef"] Cons.prems by simp
  then show ?case by (auto split: list.splits)
qed

lemma rx_test_found: "accepts r (rev pre) w rest \<Longrightarrow> rx_test r (pre @ w @ rest)"
  using rx_exec_from_found[of r pre "[]" "w @ rest"] accepts_nonempty[of r "rev pre" w rest]
  by (simp add: rx_test_def rx_exec_def)

section \<open>What a match reads\<close>

lemma rx_exec_from_reads:
  "rx_exec_from r bef aft = Some m \<Longrightarrow>
   \<exists>skipped w. w \<in> rx_words r \<and> aft = skipped @ w @ m_after m"
proof (induction aft arbitrary: bef)
  case Nil
  then obtain st sts where st: "rx_match r (bef, [], []) = st # sts" "m = mk_result bef st"
    by (auto split: list.splits)
  then have "reads (rx_words r) (bef, [], []) st" using rx_match_reads[of st r "(bef, [], [])"] by simp
  then show ?case using st by (auto simp: reads_def mk_result_def split: prod.splits)
next
  case (Cons c cs)
  show ?case
  proof (cases "rx_match r (bef, c # cs, [])")
    case Nil
    then have "rx_exec_from r (c # bef) cs = Some m" using Cons.prems by simp
    from Cons.IH[OF this] obtain skipped w where "w \<in> rx_words r" "cs = skipped @ w @ m_after m"
      by blast
    then have "w \<in> rx_words r \<and> c # cs = (c # skipped) @ w @ m_after m" by simp
    then show ?thesis by blast
  next
    case (Cons st sts)
    then have m: "m = mk_result bef st" using Cons.prems by simp
    have "reads (rx_words r) (bef, c # cs, []) st"
      using rx_match_reads[of st r "(bef, c # cs, [])"] Cons by simp
    then obtain w where "w \<in> rx_words r" "c # cs = w @ fst (snd st)" by (auto simp: reads_def)
    then have "w \<in> rx_words r \<and> c # cs = [] @ w @ m_after m"
      using m by (simp add: mk_result_def split: prod.splits)
    then show ?thesis by blast
  qed
qed

lemma rx_words_Star_class: "w \<in> rx_words (Star (Ch P)) \<Longrightarrow> list_all P w"
proof -
  assume "w \<in> rx_words (Star (Ch P))"
  then obtain ws where ws: "w = concat ws" "set ws \<subseteq> {[c] | c. P c}" by auto
  have "set ws \<subseteq> {[c] | c. P c} \<Longrightarrow> list_all P (concat ws)"
    by (induction ws) auto
  then show ?thesis using ws by simp
qed

lemma rx_words_Plus_class: "w \<in> rx_words (Plus (Ch P)) \<Longrightarrow> w \<noteq> [] \<and> list_all P w"
proof -
  assume "w \<in> rx_words (Plus (Ch P))"
  then obtain u v where uv: "w = u @ v" "u \<in> rx_words (Ch P)" "v \<in> rx_words (Star (Ch P))"
    unfolding Plus_def rx_words.simps(3) by blast
  from uv(2) obtain c where "u = [c]" "P c" by auto
  then show ?thesis using uv(1) rx_words_Star_class[OF uv(3)] by simp
qed

lemma rx_words_Rep_class: "w \<in> rx_words (Rep n (Ch P)) \<Longrightarrow> length w = n \<and> list_all P w"
  by (induction n arbitrary: w) auto

section \<open>Properties of the date normalizers\<close>

lemma split_acc_nosep: "sep \<notin> set s \<Longrightarrow> split_acc sep cur s = [cur @ s]"
  by (induction s arbitrary: cur) auto

lemma split_acc_sep:
  "sep \<notin> set a \<Longrightarrow> split_acc sep cur (a @ sep # rest) = (cur @ a) # split_acc sep [] rest"
  by (induction a arbitrary: cur) auto

lemma split_acc_length: "length (split_acc sep cur s) = Suc (count_list s sep)"
  by (induction s arbitrary: cur) auto

lemma split_acc_parts:
  "sep \<notin> set cur \<Longrightarrow> p \<in> set (split_acc sep cur s) \<Longrightarrow> sep \<notin> set p"
proof (induction s arbitrary: cur)
  case Nil
  then show ?case by simp
next
  case (Cons c s)
  show ?case
  proof (cases "c = sep")
    case True
    then have "p = cur \<or> p \<in> set (split_acc sep [] s)" using Cons.prems(2) by simp
    then show ?thesis using Cons.prems(1) Cons.IH[of "[]"] by auto
  next
    case False
    then have "p \<in> set (split_acc sep (cur @ [c]) s)" using Cons.prems(2) by simp
    moreover have "sep \<notin> set (cur @ [c])" using False Cons.prems(1) by auto
    ultimately show ?thesis using Cons.IH[of "cur @ [c]"] by blast
  qed
qed

lemma parseDDMMYYYY_three:
  assumes "CHR ''/'' \<notin> set dd" "CHR ''/'' \<notin> set mm" "CHR ''/'' \<notin> set yyyy"
  shows "parseDDMMYYYY (dd @ ''/'' @ mm @ ''/'' @ yyyy) = yyyy @ ''-'' @ padStart2 mm @ ''-'' @ padStart2 dd"
proof -
  have "str_split (dd @ CHR ''/'' # mm @ CHR ''/'' # yyyy) (CHR ''/'') = [dd, mm, yyyy]"
    using assms by (simp add: str_split_def split_acc_sep split_acc_nosep)
  then show ?thesis by (simp add: parseDDMMYYYY_def)
qed

lemma parseDDMMYYYY_unchanged_iff:
  "parseDDMMYYYY s = s \<longleftrightarrow> count_list s (CHR ''/'') \<noteq> 2"
proof
  assume eq: "parseDDMMYYYY s = s"
  show "count_list s (CHR ''/'') \<noteq> 2"
  proof
    assume c: "count_list s (CHR ''/'') = 2"
    then have len: "length (str_split s (CHR ''/'')) = 3"
      by (simp add: str_split_def split_acc_length)
    then obtain dd mm yyyy where parts: "str_split s (CHR ''/'') = [dd, mm, yyyy]"
      by (auto simp: length_Suc_conv numeral_3_eq_3)
    have nos: "CHR ''/'' \<notin> set dd" "CHR ''/'' \<notin> set mm" "CHR ''/'' \<notin> set yyyy"
      using split_acc_parts[of "CHR ''/''" "[]" _ s] parts by (simp_all add: str_split_def)
    have "parseDDMMYYYY s = yyyy @ ''-'' @ padStart2 mm @ ''-'' @ padStart2 dd"
      using parts by (simp add: parseDDMMYYYY_def)
    then have "CHR ''/'' \<notin> set (parseDDMMYYYY s)" using nos by (auto simp: padStart2_def)
    moreover have "CHR ''/'' \<in> set s" using c by (metis count_notin zero_neq_numeral)
    ultimately show False using eq by simp
  qed
next
  assume "count_list s (CHR ''/'') \<noteq> 2"
  then have "length (str_split s (CHR ''/'')) \<noteq> 3"
    by (simp add: str_split_def split_acc_length)
  then show "parseDDMMYYYY s = s"
    by (auto simp: parseDDMMYYYY_def split: list.splits)
qed

lemma space_not_word: "is_space c \<Longrightarrow> \<not> is_word c"
  by (auto simp: is_space_def is_word_def)

lemma space_not_digit: "is_space c \<Longrightarrow> \<not> is_digit c"
  by (auto simp: is_space_def is_digit_def)

lemma star_greedy_then:
  assumes f: "\<And>b c cs caps. f (b, c # cs, caps) = (if P c then [(c # b, cs, caps)] else [])"
    and f0: "\<And>b caps. f (b, [], caps) = []"
    and g: "\<And>b z zs caps. P z \<Longrightarrow> g (b, z # zs, caps) = []"
  shows "list_all P xs \<Longrightarrow> length xs \<le> n \<Longrightarrow> rest = [] \<or> \<not> P (hd rest) \<Longrightarrow>
         concat (map g (star_greedy f n (bef, xs @ rest, caps))) = g (rev xs @ bef, rest, caps)"
proof (induction xs arbitrary: bef n)
  case Nil
  have "f (bef, rest, caps) = []"
  proof (cases rest)
    case Nil then show ?thesis by (simp add: f0)
  next
    case (Cons z zs) then show ?thesis using Nil.prems(3) by (simp add: f)
  qed
  then show ?case by (cases n) simp_all
next
  case (Cons x xs)
  then obtain k where n: "n = Suc k" by (cases n) auto
  have step: "f (bef, x # xs @ rest, caps) = [(x # bef, xs @ rest, caps)]"
    using f Cons.prems(1) by simp
  have ih: "concat (map g (star_greedy f k (x # bef, xs @ rest, caps))) = g (rev xs @ x # bef, rest, caps)"
    using Cons.IH[of k "x # bef"] Cons.prems n by simp
  have "g (bef, x # xs @ rest, caps) = []" using g Cons.prems(1) by simp
  then show ?case unfolding n using ih by (simp add: step)
qed

lemma plus_class_then:
  assumes "P w" "list_all P ws" "R = [] \<or> \<not> P (hd R)"
    and "\<And>b z zs caps. P z \<Longrightarrow> rx_match K (b, z # zs, caps) = []"
  shows "rx_match (Seq (Plus (Ch P)) K) (b, w # ws @ R, c) = rx_match K (rev ws @ w # b, R, c)"
proof -
  have "concat (map (rx_match K) (star_greedy (rx_match (Ch P)) (length (ws @ R)) (w # b, ws @ R, c)))
        = rx_match K (rev ws @ w # b, R, c)"
    by (rule star_greedy_then[where P = P]) (use assms in simp_all)
  then show ?thesis using assms(1) by (simp add: Plus_def)
qed

lemma month_date_match:
  assumes d: "is_digit d1" "dtl = [] \<or> (\<exists>d2. dtl = [d2] \<and> is_digit d2)"
    and w1: "is_space w1" "list_all is_space ws1"
    and mon: "is_word a1" "is_word a2" "is_word a3"
    and w2: "is_space w2" "list_all is_space ws2"
    and yr: "is_digit y1" "is_digit y2" "is_digit y3" "is_digit y4"
  shows "rx_match rx_month_date ([], d1 # dtl @ w1 # ws1 @ [a1, a2, a3] @ w2 # ws2 @ [y1, y2, y3, y4], [])
         = [(rev (d1 # dtl @ w1 # ws1 @ [a1, a2, a3] @ w2 # ws2 @ [y1, y2, y3, y4]), [],
             [(3, [y1, y2, y3, y4]), (2, [a1, a2, a3]), (1, d1 # dtl)])]"
proof -
  define G3 where "G3 = Seq (Grp 3 (Rep 4 dg)) Eps"
  define K2 where "K2 = Seq (Plus sp) G3"
  define G2 where "G2 = Seq (Grp 2 (Rep 3 (Ch is_word))) K2"
  define K1 where "K1 = Seq (Plus sp) G2"
  have e3: "rx_match G3 (b, [y1, y2, y3, y4], c) = [([y4, y3, y2, y1] @ b, [], (3, [y1, y2, y3, y4]) # c)]"
    for b c unfolding G3_def using yr by (simp add: eval_nat_numeral)
  have f3: "rx_match G3 (b, z # zs, c) = []" if "is_space z" for b z zs c
    unfolding G3_def using space_not_digit[OF that] by (simp add: eval_nat_numeral)
  have "rx_match K2 (b, w2 # ws2 @ [y1, y2, y3, y4], c) = rx_match G3 (rev ws2 @ w2 # b, [y1, y2, y3, y4], c)"
    for b c unfolding K2_def
    by (rule plus_class_then) (use w2 f3 space_not_digit[of y1] yr(1) in auto)
  then have e2: "rx_match K2 (b, w2 # ws2 @ [y1, y2, y3, y4], c)
            = [([y4, y3, y2, y1] @ rev ws2 @ w2 # b, [], (3, [y1, y2, y3, y4]) # c)]" for b c
    by (simp only: e3)
  have f2: "rx_match G2 (b, z # zs, c) = []" if "is_space z" for b z zs c
    unfolding G2_def using space_not_word[OF that] by (simp add: eval_nat_numeral)
  have "rx_match G2 (b, [a1, a2, a3] @ w2 # ws2 @ [y1, y2, y3, y4], c)
        = rx_match K2 ([a3, a2, a1] @ b, w2 # ws2 @ [y1, y2, y3, y4], (2, [a1, a2, a3]) # c)" for b c
    unfolding G2_def using mon by (simp add: eval_nat_numeral)
  then have eg2: "rx_match G2 (b, [a1, a2, a3] @ w2 # ws2 @ [y1, y2, y3, y4], c)
            = [([y4, y3, y2, y1] @ rev ws2 @ w2 # [a3, a2, a1] @ b, [],
                (3, [y1, y2, y3, y4]) # (2, [a1, a2, a3]) # c)]" for b c
    by (simp only: e2)
  have "rx_match K1 (b, w1 # ws1 @ [a1, a2, a3] @ w2 # ws2 @ [y1, y2, y3, y4], c)
        = rx_match G2 (rev ws1 @ w1 # b, [a1, a2, a3] @ w2 # ws2 @ [y1, y2, y3, y4], c)" for b c
    unfolding K1_def
    by (rule plus_class_then) (use w1 f2 space_not_word[of a1] mon(1) in auto)
  then have e1: "rx_match K1 (b, w1 # ws1 @ [a1, a2, a3] @ w2 # ws2 @ [y1, y2, y3, y4], c)
            = [([y4, y3, y2, y1] @ rev ws2 @ w2 # [a3, a2, a1] @ rev ws1 @ w1 # b, [],
                (3, [y1, y2, y3, y4]) # (2, [a1, a2, a3]) # c)]" for b c
    by (simp only: eg2)
  have f1: "rx_match K1 (b, z # zs, c) = []" if "is_digit z" for b z zs c
    unfolding K1_def using space_not_digit[of z] that by (auto simp: Plus_def)
  have rx: "rx_month_date = Seq (Grp 1 (Seq dg (Opt dg))) K1"
    by (simp add: rx_month_date_def K1_def G2_def K2_def G3_def)
  from d(2) show ?thesis
  proof
    assume dtl: "dtl = []"
    have "rx_match (Grp 1 (Seq dg (Opt dg))) ([], d1 # w1 # ws1 @ [a1, a2, a3] @ w2 # ws2 @ [y1, y2, y3, y4], [])
          = [([d1], w1 # ws1 @ [a1, a2, a3] @ w2 # ws2 @ [y1, y2, y3, y4], [(1, [d1])])]"
      using d(1) space_not_digit[OF w1(1)] by (simp add: Opt_def)
    then show ?thesis unfolding rx dtl using e1[of "[d1]" "[(1, [d1])]"] by simp
  next
    assume "\<exists>d2. dtl = [d2] \<and> is_digit d2"
    then obtain d2 where d2: "dtl = [d2]" "is_digit d2" by blast
    have "rx_match (Grp 1 (Seq dg (Opt dg))) ([], d1 # d2 # w1 # ws1 @ [a1, a2, a3] @ w2 # ws2 @ [y1, y2, y3, y4], [])
          = [([d2, d1], w1 # ws1 @ [a1, a2, a3] @ w2 # ws2 @ [y1, y2, y3, y4], [(1, [d1, d2])]),
             ([d1], d2 # w1 # ws1 @ [a1, a2, a3] @ w2 # ws2 @ [y1, y2, y3, y4], [(1, [d1])])]"
      using d(1) d2(2) by (simp add: Opt_def)
    then show ?thesis unfolding rx d2(1)
      using e1[of "[d2, d1]" "[(1, [d1, d2])]"] f1[OF d2(2)] by simp
  qed
qed

lemma parseMonthDate_shape:
  assumes d: "is_digit d1" "dtl = [] \<or> (\<exists>d2. dtl = [d2] \<and> is_digit d2)"
    and w1: "ws1 \<noteq> []" "list_all is_space ws1"
    and mon: "list_all is_word [a1, a2, a3]" "months (toLowerCase [a1, a2, a3]) = Some mm"
    and w2: "ws2 \<noteq> []" "list_all is_space ws2"
    and yr: "list_all is_digit [y1, y2, y3, y4]"
  shows "parseMonthDate ((d1 # dtl) @ ws1 @ [a1, a2, a3] @ ws2 @ [y1, y2, y3, y4])
         = [y1, y2, y3, y4] @ ''-'' @ mm @ ''-'' @ padStart2 (d1 # dtl)"
proof -
  obtain v1 vs1 where v1: "ws1 = v1 # vs1" using w1(1) by (cases ws1) auto
  obtain v2 vs2 where v2: "ws2 = v2 # vs2" using w2(1) by (cases ws2) auto
  let ?s = "d1 # dtl @ v1 # vs1 @ [a1, a2, a3] @ v2 # vs2 @ [y1, y2, y3, y4]"
  have m: "rx_match rx_month_date ([], ?s, [])
         = [(rev ?s, [], [(3, [y1, y2, y3, y4]), (2, [a1, a2, a3]), (1, d1 # dtl)])]"
    by (rule month_date_match) (use d w1 mon w2 yr v1 v2 in simp_all)
  have "rx_exec rx_month_date ?s
        = Some (mk_result [] (rev ?s, [], [(3, [y1, y2, y3, y4]), (2, [a1, a2, a3]), (1, d1 # dtl)]))"
    unfolding rx_exec_def rx_exec_from.simps m by simp
  then show ?thesis
    using mon(2) by (simp add: parseMonthDate_def v1 v2 mk_result_def grp_str_def grp_def)
qed

lemma rx_words_SeqD:
  "w \<in> rx_words (Seq r1 r2) \<Longrightarrow> \<exists>u v. w = u @ v \<and> u \<in> rx_words r1 \<and> v \<in> rx_words r2"
  by auto

lemma rx_month_date_words:
  assumes "w \<in> rx_words rx_month_date"
  shows "\<exists>day ws1 mon ws2 year. w = day @ ws1 @ mon @ ws2 @ year
           \<and> day \<noteq> [] \<and> length day \<le> 2 \<and> list_all is_digit day
           \<and> ws1 \<noteq> [] \<and> list_all is_space ws1
           \<and> length mon = 3 \<and> list_all is_word mon
           \<and> ws2 \<noteq> [] \<and> list_all is_space ws2
           \<and> length year = 4 \<and> list_all is_digit year"
proof -
  have rx: "rx_month_date = Seq (Grp 1 (Seq dg (Opt dg))) (Seq (Plus sp)
      (Seq (Grp 2 (Rep 3 (Ch is_word))) (Seq (Plus sp) (Seq (Grp 3 (Rep 4 dg)) Eps))))"
    by (simp add: rx_month_date_def)
  from assms[unfolded rx] obtain day r1 where 1: "w = day @ r1" "day \<in> rx_words (Grp 1 (Seq dg (Opt dg)))"
    "r1 \<in> rx_words (Seq (Plus sp)
      (Seq (Grp 2 (Rep 3 (Ch is_word))) (Seq (Plus sp) (Seq (Grp 3 (Rep 4 dg)) Eps))))"
    using rx_words_SeqD by blast
  from 1(3) obtain ws1 r2 where 2: "r1 = ws1 @ r2" "ws1 \<in> rx_words (Plus sp)"
    "r2 \<in> rx_words (Seq (Grp 2 (Rep 3 (Ch is_word))) (Seq (Plus sp) (Seq (Grp 3 (Rep 4 dg)) Eps)))"
    using rx_words_SeqD by blast
  from 2(3) obtain mon r3 where 3: "r2 = mon @ r3" "mon \<in> rx_words (Grp 2 (Rep 3 (Ch is_word)))"
    "r3 \<in> rx_words (Seq (Plus sp) (Seq (Grp 3 (Rep 4 dg)) Eps))"
    using rx_words_SeqD by blast
  from 3(3) obtain ws2 r4 where 4: "r3 = ws2 @ r4" "ws2 \<in> rx_words (Plus sp)"
    "r4 \<in> rx_words (Seq (Grp 3 (Rep 4 dg)) Eps)"
    using rx_words_SeqD by blast
  from 4(3) obtain year where 5: "r4 = year" "year \<in> rx_words (Grp 3 (Rep 4 dg))"
    by auto
  have day: "day \<noteq> [] \<and> length day \<le> 2 \<and> list_all is_digit day"
    using 1(2) by (auto simp: Opt_def)
  have mon: "length mon = 3 \<and> list_all is_word mon"
    using 3(2) rx_words_Rep_class[of mon 3 is_word] by simp
  have year: "length year = 4 \<and> list_all is_digit year"
    using 5(2) rx_words_Rep_class[of year 4 is_digit] by simp
  have "w = day @ ws1 @ mon @ ws2 @ year" using 1(1) 2(1) 3(1) 4(1) 5(1) by simp
  then show ?thesis
    using day mon year rx_words_Plus_class[OF 2(2)] rx_words_Plus_class[OF 4(2)]
    by blast
qed

lemma parseMonthDate_changed:
  assumes "parseMonthDate s \<noteq> s"
  shows "\<exists>pre day ws1 mon ws2 year post. s = pre @ day @ ws1 @ mon @ ws2 @ year @ post
           \<and> day \<noteq> [] \<and> length day \<le> 2 \<and> list_all is_digit day
           \<and> ws1 \<noteq> [] \<and> list_all is_space ws1
           \<and> length mon = 3 \<and> list_all is_word mon
           \<and> ws2 \<noteq> [] \<and> list_all is_space ws2
           \<and> length year = 4 \<and> list_all is_digit year"
proof -
  from assms obtain m where "rx_exec rx_month_date s = Some m"
    by (auto simp: parseMonthDate_def split: option.splits)
  then obtain pre w where w: "w \<in> rx_words rx_month_date" "s = pre @ w @ m_after m"
    using rx_exec_from_reads[of rx_month_date "[]" s m] by (auto simp: rx_exec_def)
  from rx_month_date_words[OF w(1)] obtain day ws1 mon ws2 year where
    "w = day @ ws1 @ mon @ ws2 @ year"
    "day \<noteq> [] \<and> length day \<le> 2 \<and> list_all is_digit day
           \<and> ws1 \<noteq> [] \<and> list_all is_space ws1
           \<and> length mon = 3 \<and> list_all is_word mon
           \<and> ws2 \<noteq> [] \<and> list_all is_space ws2
           \<and> length year = 4 \<and> list_all is_digit year"
    by blast
  then have "s = pre @ day @ ws1 @ mon @ ws2 @ year @ m_after m
           \<and> day \<noteq> [] \<and> length day \<le> 2 \<and> list_all is_digit day
           \<and> ws1 \<noteq> [] \<and> list_all is_space ws1
           \<and> length mon = 3 \<and> list_all is_word mon
           \<and> ws2 \<noteq> [] \<and> list_all is_space ws2
           \<and> length year = 4 \<and> list_all is_digit year"
    using w(2) by simp
  then show ?thesis by blast
qed

lemma digit_not_slash: "is_digit c \<Longrightarrow> c \<noteq> CHR ''/''"
  by (auto simp: is_digit_def)

text \<open>
  C7 (as amended). \<open>parseDDMMYYYY\<close> maps a strict zero-padded DD/MM/YYYY string to
  YYYY-MM-DD, and returns its input unchanged exactly when the input does not hold exactly
  two \<open>/\<close> characters; every input with two slashes is rearranged. \<open>parseMonthDate\<close> maps a
  D Mon YYYY string (one or two digit day, month abbreviation in any case, four digit year)
  to YYYY-MM-DD with the day padded, and changes a string only if the string contains a
  run of one or two digits, white space, three word characters, white space and four digits.
  Both are total functions.
\<close>

theorem date_normalizers:
  "(list_all is_digit [d1, d2, m1, m2, y1, y2, y3, y4] \<longrightarrow>
      parseDDMMYYYY [d1, d2, CHR ''/'', m1, m2, CHR ''/'', y1, y2, y3, y4]
        = [y1, y2, y3, y4, CHR ''-'', m1, m2, CHR ''-'', d1, d2])
   \<and> (parseDDMMYYYY s = s \<longleftrightarrow> count_list s (CHR ''/'') \<noteq> 2)
   \<and> (is_digit e1 \<and> (dtl = [] \<or> (\<exists>e2. dtl = [e2] \<and> is_digit e2))
        \<and> ws1 \<noteq> [] \<and> list_all is_space ws1
        \<and> list_all is_word [a1, a2, a3] \<and> months (toLowerCase [a1, a2, a3]) = Some mm
        \<and> ws2 \<noteq> [] \<and> list_all is_space ws2
        \<and> list_all is_digit [z1, z2, z3, z4] \<longrightarrow>
      parseMonthDate ((e1 # dtl) @ ws1 @ [a1, a2, a3] @ ws2 @ [z1, z2, z3, z4])
        = [z1, z2, z3, z4] @ ''-'' @ mm @ ''-'' @ padStart2 (e1 # dtl))
   \<and> (parseMonthDate t \<noteq> t \<longrightarrow>
        (\<exists>pre day sp1 mon sp2 year post. t = pre @ day @ sp1 @ mon @ sp2 @ year @ post
           \<and> day \<noteq> [] \<and> length day \<le> 2 \<and> list_all is_digit day
           \<and> sp1 \<noteq> [] \<and> list_all is_space sp1
           \<and> length mon = 3 \<and> list_all is_word mon
           \<and> sp2 \<noteq> [] \<and> list_all is_space sp2
           \<and> length year = 4 \<and> list_all is_digit year))"
proof -
  have a: "list_all is_digit [d1, d2, m1, m2, y1, y2, y3, y4] \<longrightarrow>
      parseDDMMYYYY [d1, d2, CHR ''/'', m1, m2, CHR ''/'', y1, y2, y3, y4]
        = [y1, y2, y3, y4, CHR ''-'', m1, m2, CHR ''-'', d1, d2]"
  proof
    assume d: "list_all is_digit [d1, d2, m1, m2, y1, y2, y3, y4]"
    have "parseDDMMYYYY ([d1, d2] @ ''/'' @ [m1, m2] @ ''/'' @ [y1, y2, y3, y4])
          = [y1, y2, y3, y4] @ ''-'' @ padStart2 [m1, m2] @ ''-'' @ padStart2 [d1, d2]"
      by (rule parseDDMMYYYY_three) (use d digit_not_slash in auto)
    then show "parseDDMMYYYY [d1, d2, CHR ''/'', m1, m2, CHR ''/'', y1, y2, y3, y4]
        = [y1, y2, y3, y4, CHR ''-'', m1, m2, CHR ''-'', d1, d2]"
      by (simp add: padStart2_def)
  qed
  show ?thesis
    using a parseDDMMYYYY_unchanged_iff[of s]
      parseMonthDate_shape[of e1 dtl ws1 a1 a2 a3 mm ws2 z1 z2 z3 z4]
      parseMonthDate_changed[of t]
    by blast
qed

theorem date_normalizers_witness:
  "list_all is_digit ''01022024''
   \<and> parseDDMMYYYY ''01/02/2024'' = ''2024-02-01''
   \<and> count_list ''24 Jan 2026'' (CHR ''/'') \<noteq> 2
   \<and> parseDDMMYYYY ''24 Jan 2026'' = ''24 Jan 2026''
   \<and> months (toLowerCase ''jAN'') = Some ''01''
   \<and> parseMonthDate ''4  jAN 2026'' = ''2026-01-04''
   \<and> parseMonthDate ''x 1 Jan 20245'' \<noteq> ''x 1 Jan 20245''
   \<and> (\<exists>pre day sp1 mon sp2 year post.
         ''x 1 Jan 20245'' = pre @ day @ sp1 @ mon @ sp2 @ year @ post
           \<and> day \<noteq> [] \<and> length day \<le> 2 \<and> list_all is_digit day
           \<and> sp1 \<noteq> [] \<and> list_all is_space sp1
           \<and> length mon = 3 \<and> list_all is_word mon
           \<and> sp2 \<noteq> [] \<and> list_all is_space sp2
           \<and> length year = 4 \<and> list_all is_digit year)"
proof -
  have h1: "list_all is_digit ''01022024''" by code_simp
  have h2: "count_list ''24 Jan 2026'' (CHR ''/'') \<noteq> 2" by simp
  have h3: "is_digit (CHR ''4'') \<and> list_all is_space ''  '' \<and> list_all is_word ''jAN''
            \<and> months (toLowerCase ''jAN'') = Some ''01'' \<and> list_all is_space '' ''
            \<and> list_all is_digit ''2026''"
    by code_simp
  have h4: "parseMonthDate ''x 1 Jan 20245'' \<noteq> ''x 1 Jan 20245''" by code_simp
  note t = date_normalizers[of "CHR ''0''" "CHR ''1''" "CHR ''0''" "CHR ''2''"
      "CHR ''2''" "CHR ''0''" "CHR ''2''" "CHR ''4''" "''24 Jan 2026''"
      "CHR ''4''" "[]" "''  ''" "CHR ''j''" "CHR ''A''" "CHR ''N''" "''01''" "'' ''"
      "CHR ''2''" "CHR ''0''" "CHR ''2''" "CHR ''6''" "''x 1 Jan 20245''"]
  have c1: "parseDDMMYYYY ''01/02/2024'' = ''2024-02-01''" using t h1 by simp
  have c2: "parseDDMMYYYY ''24 Jan 2026'' = ''24 Jan 2026''" using t h2 by blast
  have c3: "parseMonthDate ''4  jAN 2026'' = ''2026-01-04''" using t h3 by (simp add: padStart2_def)
  have c4: "\<exists>pre day sp1 mon sp2 year post.
         ''x 1 Jan 20245'' = pre @ day @ sp1 @ mon @ sp2 @ year @ post
           \<and> day \<noteq> [] \<and> length day \<le> 2 \<and> list_all is_digit day
           \<and> sp1 \<noteq> [] \<and> list_all is_space sp1
           \<and> length mon = 3 \<and> list_all is_word mon
           \<and> sp2 \<noteq> [] \<and> list_all is_space sp2
           \<and> length year = 4 \<and> list_all is_digit year"
    using t h4 by blast
  show ?thesis using h1 h2 h3 h4 c1 c2 c3 c4 by blast
qed

text \<open>
  C7 (as stated) fails: \<open>1/2/2024\<close> is not a strict DD/MM/YYYY string, and \<open>1 Jan 20245\<close>
  is not a D Mon YYYY string, yet neither is returned unchanged.
\<close>

theorem date_normalizers_counterexample:
  "\<not> rx_test (Seqs [Bol, rx_ddmmyyyy, Eol]) ''1/2/2024''
   \<and> parseDDMMYYYY ''1/2/2024'' = ''2024-02-01''
   \<and> parseMonthDate ''1 Jan 20245'' = ''2024-01-01''"
  by code_simp

section \<open>Properties of the Emirates NBD account parser\<close>

definition enbd_row_rest :: "string \<Rightarrow> string option" where
  "enbd_row_rest line =
     map_option (\<lambda>dateMatch. drop (length (m_text dateMatch)) line) (rx_exec rx_row_date line)"

lemma enbd_account_row_first_amount:
  assumes "enbd_account_row line following = Some tx" "enbd_row_rest line = Some rest"
  shows "amounts_from [] rest \<noteq> [] \<and> amount tx = amt_value (hd (amounts_from [] rest))"
proof -
  from assms(2) obtain dm where dm: "rx_exec rx_row_date line = Some dm"
    "rest = drop (length (m_text dm)) line"
    by (auto simp: enbd_row_rest_def)
  obtain a others where a: "amounts_from [] rest = a # others"
    using assms(1) dm by (cases "amounts_from [] rest") (simp_all add: enbd_account_row_def Let_def)
  have "\<exists>d desc. enbd_account_emit d desc (amt_value a) = Some tx"
    using assms(1) dm a
    by (auto simp: enbd_account_row_def Let_def split: if_splits)
  then have "amount tx = amt_value a" using enbd_account_emit_nonzero by blast
  then show ?thesis using a by simp
qed

lemma enbd_account_row_dated:
  "enbd_account_row line following = Some tx \<Longrightarrow> rx_test rx_row_date line"
  by (auto simp: enbd_account_row_def rx_test_def split: option.splits)

lemma scan_lines_dated:
  "length (scan_lines enbd_account_row ls) \<le> length (filter (rx_test rx_row_date) ls)"
proof (induction ls)
  case Nil
  then show ?case by simp
next
  case (Cons l ls)
  show ?case
  proof (cases "enbd_account_row l ls")
    case None
    then show ?thesis using Cons by simp
  next
    case (Some tx)
    then have "rx_test rx_row_date l" by (rule enbd_account_row_dated)
    then show ?thesis using Cons Some by simp
  qed
qed

lemma balance_marker_found:
  assumes "ds \<noteq> []" "list_all (\<lambda>c. is_digit c \<or> c = CHR '','') ds" "is_digit c1" "is_digit c2"
    and "list_all is_space ws1" "toLowerCase mk = ''cr'' \<or> toLowerCase mk = ''dr''"
    and "list_all is_space ws2"
  shows "rx_test rx_balance_check (pre @ ds @ ''.'' @ [c1, c2] @ ws1 @ mk @ ws2)"
proof -
  let ?b0 = "rev pre"
  have rx: "rx_balance_check =
      Seq (Grp 1 (Seq (Plus digit_or_comma) (Seq (Lit ''.'') (Seq (Rep 2 dg) Eps))))
        (Seq (Star sp) (Seq (Alt (LitI ''Cr'') (LitI ''Dr'')) (Seq (Star sp) (Seq Eol Eps))))"
    by (simp add: rx_balance_check_def rx_amount2_def)
  have two: "accepts (Rep 2 dg) b [c1, c2] r" for b r
    using accepts_Rep[of is_digit "[c1, c2]" b r] assms(3,4) by (simp add: eval_nat_numeral)
  have amt: "accepts (Grp 1 (Seq (Plus digit_or_comma) (Seq (Lit ''.'') (Seq (Rep 2 dg) Eps))))
      b (ds @ ''.'' @ [c1, c2] @ []) r" for b r
    by (intro accepts_Grp accepts_Seq accepts_Plus accepts_Lit two accepts_Eps assms(1,2))
  have mk: "accepts (Alt (LitI ''Cr'') (LitI ''Dr'')) b mk r" for b r
    using assms(6)
  proof
    assume "toLowerCase mk = ''cr''"
    then have "toLowerCase mk = toLowerCase ''Cr''" by (simp add: toLowerCase_def toLowerChar_def)
    then show ?thesis by (intro accepts_Alt1 accepts_LitI)
  next
    assume "toLowerCase mk = ''dr''"
    then have "toLowerCase mk = toLowerCase ''Dr''" by (simp add: toLowerCase_def toLowerChar_def)
    then show ?thesis by (intro accepts_Alt2 accepts_LitI)
  qed
  have eol: "accepts (Seq Eol Eps) b [] []" for b
    using accepts_Seq[of Eol b "[]" "[]" "[]" Eps] accepts_Eol accepts_Eps by simp
  have tail: "accepts (Seq (Star sp) (Seq Eol Eps)) b ws2 []" for b
    using accepts_Seq[of "Star sp" b ws2 "[]" "[]" "Seq Eol Eps"] accepts_Star[OF assms(7)] eol
    by simp
  have "accepts rx_balance_check ?b0
          ((ds @ ''.'' @ [c1, c2] @ []) @ ws1 @ mk @ ws2) []"
    unfolding rx
    by (intro accepts_Seq amt accepts_Star assms(5) mk tail)
  then have "accepts rx_balance_check ?b0 (ds @ ''.'' @ [c1, c2] @ ws1 @ mk @ ws2) []" by simp
  from rx_test_found[OF this] show ?thesis by simp
qed

lemma enbd_account_row_balance_only:
  assumes "enbd_row_rest line = Some rest" "rx_test rx_balance_check rest"
    and "length (amounts_from [] rest) = 1"
  shows "enbd_account_row line following = None"
proof -
  from assms(1) obtain dm where dm: "rx_exec rx_row_date line = Some dm"
    "rest = drop (length (m_text dm)) line"
    by (auto simp: enbd_row_rest_def)
  obtain a where a: "amounts_from [] rest = [a]"
    using assms(3) by (cases "amounts_from [] rest") auto
  show ?thesis
    using dm a assms(2) by (simp add: enbd_account_row_def Let_def)
qed

text \<open>
  C9. For a dated row of an account statement, \<open>rest\<close> being the text after the date: a
  transaction emitted for a row with two or more amount-shaped fields carries the value of
  the first field; a row whose only amount-shaped field is followed, up to white space, by
  \<open>Cr\<close> or \<open>Dr\<close> at the end of the row emits nothing; and a page yields at most one
  transaction per dated row, so a trailing balance is never a transaction of its own.
\<close>

theorem enbd_account_amounts:
  "(enbd_account_row line following = Some tx \<and> enbd_row_rest line = Some rest
      \<and> 2 \<le> length (amounts_from [] rest)
      \<longrightarrow> amount tx = amt_value (hd (amounts_from [] rest)))
   \<and> (enbd_row_rest line' = Some (pre @ ds @ ''.'' @ [c1, c2] @ ws1 @ mk @ ws2)
      \<and> ds \<noteq> [] \<and> list_all (\<lambda>c. is_digit c \<or> c = CHR '','') ds \<and> is_digit c1 \<and> is_digit c2
      \<and> list_all is_space ws1 \<and> (toLowerCase mk = ''cr'' \<or> toLowerCase mk = ''dr'')
      \<and> list_all is_space ws2
      \<and> length (amounts_from [] (pre @ ds @ ''.'' @ [c1, c2] @ ws1 @ mk @ ws2)) = 1
      \<longrightarrow> enbd_account_row line' following' = None)
   \<and> length (scan_lines enbd_account_row ls) \<le> length (filter (rx_test rx_row_date) ls)"
  using enbd_account_row_first_amount[of line following tx rest]
    balance_marker_found[of ds c1 c2 ws1 mk ws2 pre]
    enbd_account_row_balance_only[of line' "pre @ ds @ ''.'' @ [c1, c2] @ ws1 @ mk @ ws2" following']
    scan_lines_dated[of ls]
  by blast

theorem enbd_account_amounts_witness:
  "enbd_account_row ''24 Jan 2026  IPP 2026  2939.21   41905.30 Cr'' []
     = Some \<lparr>date = ''2026-01-24'', payee = ''IPP 2026'', memo = [], amount = Fin 2939.21,
              originalDate = ''24 Jan 2026''\<rparr>
   \<and> enbd_row_rest ''24 Jan 2026  IPP 2026  2939.21   41905.30 Cr''
       = Some ''IPP 2026  2939.21   41905.30 Cr''
   \<and> length (amounts_from [] ''IPP 2026  2939.21   41905.30 Cr'') = 2
   \<and> amt_value (hd (amounts_from [] ''IPP 2026  2939.21   41905.30 Cr'')) = Fin 2939.21
   \<and> enbd_row_rest ''24 Jan 2026   Opening balance      41905.30 Cr''
       = Some ''Opening balance      41905.30 Cr''
   \<and> length (amounts_from [] ''Opening balance      41905.30 Cr'') = 1
   \<and> enbd_account_row ''24 Jan 2026   Opening balance      41905.30 Cr'' [] = None"
proof -
  have h1: "enbd_account_row ''24 Jan 2026  IPP 2026  2939.21   41905.30 Cr'' []
     = Some \<lparr>date = ''2026-01-24'', payee = ''IPP 2026'', memo = [], amount = Fin 2939.21,
              originalDate = ''24 Jan 2026''\<rparr>"
    by code_simp
  have h2: "enbd_row_rest ''24 Jan 2026  IPP 2026  2939.21   41905.30 Cr''
       = Some ''IPP 2026  2939.21   41905.30 Cr''"
    by code_simp
  have h3: "length (amounts_from [] ''IPP 2026  2939.21   41905.30 Cr'') = 2" by code_simp
  have h4: "enbd_row_rest ''24 Jan 2026   Opening balance      41905.30 Cr''
       = Some (''Opening balance      '' @ ''41905'' @ ''.'' @ [CHR ''3'', CHR ''0''] @ '' '' @ ''Cr'' @ [])"
    by code_simp
  have h5: "''41905'' \<noteq> [] \<and> list_all (\<lambda>c. is_digit c \<or> c = CHR '','') ''41905''
      \<and> is_digit (CHR ''3'') \<and> is_digit (CHR ''0'')
      \<and> list_all is_space '' '' \<and> (toLowerCase ''Cr'' = ''cr'' \<or> toLowerCase ''Cr'' = ''dr'')
      \<and> list_all is_space []"
    by code_simp
  have h6: "length (amounts_from []
      (''Opening balance      '' @ ''41905'' @ ''.'' @ [CHR ''3'', CHR ''0''] @ '' '' @ ''Cr'' @ [])) = 1"
    by code_simp
  note t = enbd_account_amounts[of "''24 Jan 2026  IPP 2026  2939.21   41905.30 Cr''" "[]"
      "\<lparr>date = ''2026-01-24'', payee = ''IPP 2026'', memo = [], amount = Fin 2939.21,
        originalDate = ''24 Jan 2026''\<rparr>"
      "''IPP 2026  2939.21   41905.30 Cr''"
      "''24 Jan 2026   Opening balance      41905.30 Cr''"
      "''Opening balance      ''" "''41905''" "CHR ''3''" "CHR ''0''" "'' ''" "''Cr''" "[]" "[]" "[]"]
  have c1: "amt_value (hd (amounts_from [] ''IPP 2026  2939.21   41905.30 Cr'')) = Fin 2939.21"
    using t h1 h2 h3 by simp
  have c2: "enbd_account_row ''24 Jan 2026   Opening balance      41905.30 Cr'' [] = None"
    using t h4 h5 h6 by blast
  have h4': "enbd_row_rest ''24 Jan 2026   Opening balance      41905.30 Cr''
       = Some ''Opening balance      41905.30 Cr''"
    using h4 by simp
  have h6': "length (amounts_from [] ''Opening balance      41905.30 Cr'') = 1"
    using h6 by simp
  show ?thesis using h1 h2 h3 c1 h4' h6' c2 by blast
qed

section \<open>Export serializer, unquoted variant (ynab-export.ts)\<close>

text \<open>
  The repository also holds a serializer that writes dates as MM/DD/YYYY, quotes a field
  only when it contains a comma, a quote or a line break, leaves the unused column empty
  and keeps both decimals. On the transaction of C3 it writes a different line.
\<close>

definition escapeCSV :: "string \<Rightarrow> string" where
  "escapeCSV v =
     (if str_includes v '','' \<or> str_includes v [dquote] \<or> str_includes v ''\<newline>''
      then [dquote] @ rx_replace_all (Lit [dquote]) [dquote, dquote] v @ [dquote]
      else v)"

definition formatDate_mdy :: "string \<Rightarrow> string" where
  "formatDate_mdy isoDate =
     (case str_split isoDate (CHR ''-'') of
        [yyyy, mm, dd] \<Rightarrow> mm @ ''/'' @ dd @ ''/'' @ yyyy
      | _ \<Rightarrow> isoDate)"

definition ynab_line_unquoted :: "YNABFormat \<Rightarrow> Transaction \<Rightarrow> string option" where
  "ynab_line_unquoted format tx =
     (case format of
        InflowOutflow \<Rightarrow>
          (case all_some [if js_lt0 (amount tx) then toFixed2 (Math_abs (amount tx)) else Some [],
                          if js_gt0 (amount tx) then toFixed2 (amount tx) else Some []] of
             Some [outflow, inflow] \<Rightarrow>
               Some (formatDate_mdy (date tx) @ '','' @ escapeCSV (payee tx) @ '',''
                     @ escapeCSV (memo tx) @ '','' @ outflow @ '','' @ inflow)
           | _ \<Rightarrow> None)
      | SingleAmount \<Rightarrow>
          map_option
            (\<lambda>amt. formatDate_mdy (date tx) @ '','' @ escapeCSV (payee tx) @ '',''
                    @ escapeCSV (memo tx) @ '','' @ amt)
            (toFixed2 (amount tx)))"

definition toYNABCSV_unquoted :: "Transaction list \<Rightarrow> YNABFormat \<Rightarrow> string option" where
  "toYNABCSV_unquoted txs format =
     map_option
       (\<lambda>rows. join ''\<newline>''
          ((case format of
              InflowOutflow \<Rightarrow> ''Date,Payee,Memo,Outflow,Inflow''
            | SingleAmount \<Rightarrow> ''Date,Payee,Memo,Amount'') # rows))
       (all_some (map (ynab_line_unquoted format) txs))"

lemma toYNABCSV_unquoted_inflow:
  "toYNABCSV_unquoted [\<lparr>date = ''2024-02-01'', payee = ''Acme, Inc'', memo = [], amount = Fin 42.5,
               originalDate = ''01/02/2024''\<rparr>] InflowOutflow
   = Some (''Date,Payee,Memo,Outflow,Inflow'' @ ''\<newline>'' @ ''02/01/2024,\"Acme, Inc\",,,42.50'')"
  by code_simp

end
